theory Spec2Isabelle
  imports Complex_Main "HOL-Library.Word" "HOL-Library.Log_Nat" "HOL-Library.Multiset"
begin

unbundle bit_operations_syntax

chapter \<open>GibRAM: sessions, cleanup scheduler, durability formats and distance kernels\<close>

section \<open>Sessions (pkg/types: session part of errors.go)\<close>

text \<open>
  Go's \<open>int64\<close> is a 64-bit two's complement integer whose arithmetic wraps around.
  Go's \<open>int\<close> has the width of the platform; the 64-bit platforms the server is built
  for (the SIMD kernels are amd64 code) give it 64 bits as well. Both are modelled as
  \<open>64 word\<close>; comparisons are the signed ones (\<open><s\<close>, \<open>\<le>s\<close>) and \<open>sint\<close> reads the value.
\<close>

type_synonym int64 = "64 word"
type_synonym go_int = "64 word"

datatype quota_error =
    ErrEntityQuotaExceeded
  | ErrRelationshipQuotaExceeded
  | ErrDocumentQuotaExceeded
  | ErrMemoryQuotaExceeded

text \<open>The struct \<open>Session\<close>; the mutex is left out, every method runs under it as one step.\<close>

record Session =
  ID :: string
  CreatedAt :: int64
  LastAccess :: int64
  TTL :: int64
  IdleTTL :: int64
  MaxEntities :: go_int
  MaxRelationships :: go_int
  MaxDocuments :: go_int
  MaxMemoryBytes :: int64
  EntityCount :: go_int
  RelationshipCount :: go_int
  DocumentCount :: go_int
  MemoryBytes :: int64

text \<open>\<open>NewSession\<close>; the clock reading \<open>time.Now().UnixNano()\<close> is the argument \<open>now\<close>.\<close>

definition NewSession :: "string \<Rightarrow> int64 \<Rightarrow> Session" where
  "NewSession sid now =
     \<lparr> ID = sid, CreatedAt = now, LastAccess = now, TTL = 0, IdleTTL = 0,
       MaxEntities = 0, MaxRelationships = 0, MaxDocuments = 0, MaxMemoryBytes = 0,
       EntityCount = 0, RelationshipCount = 0, DocumentCount = 0, MemoryBytes = 0 \<rparr>"

definition Touch :: "int64 \<Rightarrow> Session \<Rightarrow> Session" where
  "Touch now s = s\<lparr>LastAccess := now\<rparr>"

definition SetTTL :: "int64 \<Rightarrow> Session \<Rightarrow> Session" where
  "SetTTL ttl s = s\<lparr>TTL := ttl\<rparr>"

definition SetIdleTTL :: "int64 \<Rightarrow> Session \<Rightarrow> Session" where
  "SetIdleTTL idleTTL s = s\<lparr>IdleTTL := idleTTL\<rparr>"

definition SetQuotas :: "go_int \<Rightarrow> go_int \<Rightarrow> go_int \<Rightarrow> int64 \<Rightarrow> Session \<Rightarrow> Session" where
  "SetQuotas maxEntities maxRelationships maxDocuments maxMemoryBytes s =
     s\<lparr>MaxEntities := maxEntities, MaxRelationships := maxRelationships,
       MaxDocuments := maxDocuments, MaxMemoryBytes := maxMemoryBytes\<rparr>"

text \<open>
  The quota checks return Go's \<open>error\<close>: \<open>None\<close> is \<open>nil\<close>. The parameter \<open>count\<close> of the
  source is \<open>cnt\<close> here.
\<close>

definition CheckEntityQuota :: "Session \<Rightarrow> go_int \<Rightarrow> quota_error option" where
  "CheckEntityQuota s cnt =
     (if 0 <s MaxEntities s \<and> MaxEntities s <s EntityCount s + cnt
      then Some ErrEntityQuotaExceeded else None)"

definition CheckRelationshipQuota :: "Session \<Rightarrow> go_int \<Rightarrow> quota_error option" where
  "CheckRelationshipQuota s cnt =
     (if 0 <s MaxRelationships s \<and> MaxRelationships s <s RelationshipCount s + cnt
      then Some ErrRelationshipQuotaExceeded else None)"

definition CheckDocumentQuota :: "Session \<Rightarrow> go_int \<Rightarrow> quota_error option" where
  "CheckDocumentQuota s cnt =
     (if 0 <s MaxDocuments s \<and> MaxDocuments s <s DocumentCount s + cnt
      then Some ErrDocumentQuotaExceeded else None)"

definition CheckMemoryQuota :: "Session \<Rightarrow> int64 \<Rightarrow> quota_error option" where
  "CheckMemoryQuota s bytes =
     (if 0 <s MaxMemoryBytes s \<and> MaxMemoryBytes s <s MemoryBytes s + bytes
      then Some ErrMemoryQuotaExceeded else None)"

definition IncrementEntity :: "go_int \<Rightarrow> Session \<Rightarrow> Session" where
  "IncrementEntity cnt s = s\<lparr>EntityCount := EntityCount s + cnt\<rparr>"

definition DecrementEntity :: "go_int \<Rightarrow> Session \<Rightarrow> Session" where
  "DecrementEntity cnt s =
     (let c = EntityCount s - cnt
      in s\<lparr>EntityCount := (if c <s 0 then 0 else c)\<rparr>)"

definition IncrementRelationship :: "go_int \<Rightarrow> Session \<Rightarrow> Session" where
  "IncrementRelationship cnt s = s\<lparr>RelationshipCount := RelationshipCount s + cnt\<rparr>"

definition DecrementRelationship :: "go_int \<Rightarrow> Session \<Rightarrow> Session" where
  "DecrementRelationship cnt s =
     (let c = RelationshipCount s - cnt
      in s\<lparr>RelationshipCount := (if c <s 0 then 0 else c)\<rparr>)"

definition IncrementDocument :: "go_int \<Rightarrow> Session \<Rightarrow> Session" where
  "IncrementDocument cnt s = s\<lparr>DocumentCount := DocumentCount s + cnt\<rparr>"

definition DecrementDocument :: "go_int \<Rightarrow> Session \<Rightarrow> Session" where
  "DecrementDocument cnt s =
     (let c = DocumentCount s - cnt
      in s\<lparr>DocumentCount := (if c <s 0 then 0 else c)\<rparr>)"

definition AddMemory :: "int64 \<Rightarrow> Session \<Rightarrow> Session" where
  "AddMemory bytes s = s\<lparr>MemoryBytes := MemoryBytes s + bytes\<rparr>"

definition SubMemory :: "int64 \<Rightarrow> Session \<Rightarrow> Session" where
  "SubMemory bytes s =
     (let c = MemoryBytes s - bytes
      in s\<lparr>MemoryBytes := (if c <s 0 then 0 else c)\<rparr>)"

text \<open>\<open>IsExpired\<close>; the clock reading taken inside the method is the argument \<open>now\<close>.\<close>

definition IsExpired :: "Session \<Rightarrow> int64 \<Rightarrow> bool" where
  "IsExpired s now =
     (if 0 <s TTL s \<and> CreatedAt s + TTL s <s now then True
      else if 0 <s IdleTTL s \<and> LastAccess s + IdleTTL s <s now then True
      else False)"

definition GetExpireAt :: "Session \<Rightarrow> int64" where
  "GetExpireAt s =
     (let expireAt = (if 0 <s TTL s then CreatedAt s + TTL s else 0)
      in if 0 <s IdleTTL s
         then (let idleExpire = LastAccess s + IdleTTL s
               in if expireAt = 0 \<or> idleExpire <s expireAt then idleExpire else expireAt)
         else expireAt)"

definition GetTTLRemaining :: "Session \<Rightarrow> int64 \<Rightarrow> int64" where
  "GetTTLRemaining s now =
     (let expireAt = GetExpireAt s
      in if expireAt = 0 then - 1
         else (let remaining = expireAt - now
               in if remaining <s 0 then 0 else remaining))"

text \<open>
  The operations that change the usage counters, as a datatype, so that a sequence of
  calls is a list.
\<close>

datatype usage_op =
    IncEntity go_int | DecEntity go_int
  | IncRelationship go_int | DecRelationship go_int
  | IncDocument go_int | DecDocument go_int
  | AddMem int64 | SubMem int64

fun apply_usage :: "usage_op \<Rightarrow> Session \<Rightarrow> Session" where
  "apply_usage (IncEntity n) s = IncrementEntity n s"
| "apply_usage (DecEntity n) s = DecrementEntity n s"
| "apply_usage (IncRelationship n) s = IncrementRelationship n s"
| "apply_usage (DecRelationship n) s = DecrementRelationship n s"
| "apply_usage (IncDocument n) s = IncrementDocument n s"
| "apply_usage (DecDocument n) s = DecrementDocument n s"
| "apply_usage (AddMem n) s = AddMemory n s"
| "apply_usage (SubMem n) s = SubMemory n s"

fun apply_usages :: "usage_op list \<Rightarrow> Session \<Rightarrow> Session" where
  "apply_usages [] s = s"
| "apply_usages (x # xs) s = apply_usages xs (apply_usage x s)"

subsection \<open>What the specification says about quotas, deadlines and counters\<close>

text \<open>
  The specification speaks of sums of numbers. \<open>add_fits a b\<close> says that the sum of two
  64-bit values is itself a 64-bit value, so that Go's wrapping \<open>+\<close> is the sum.
\<close>

definition add_fits :: "int64 \<Rightarrow> int64 \<Rightarrow> bool" where
  "add_fits a b = (- (2 ^ 63) \<le> sint a + sint b \<and> sint a + sint b < 2 ^ 63)"

text \<open>The pre-check of the specification: \<open>current + \<Delta> \<le> max\<close>, over the integers.\<close>

definition quota_admits_spec :: "int64 \<Rightarrow> int64 \<Rightarrow> int64 \<Rightarrow> bool" where
  "quota_admits_spec current delta maxq = (sint current + sint delta \<le> sint maxq)"

text \<open>The two deadlines of the specification, as integers (nanoseconds).\<close>

definition absolute_deadline :: "Session \<Rightarrow> int" where
  "absolute_deadline s = sint (CreatedAt s) + sint (TTL s)"

definition idle_deadline :: "Session \<Rightarrow> int" where
  "idle_deadline s = sint (LastAccess s) + sint (IdleTTL s)"

definition next_expiration_spec :: "Session \<Rightarrow> int" where
  "next_expiration_spec s =
     (if 0 <s TTL s
      then (if 0 <s IdleTTL s then min (absolute_deadline s) (idle_deadline s)
            else absolute_deadline s)
      else if 0 <s IdleTTL s then idle_deadline s else 0)"

definition expired_spec :: "Session \<Rightarrow> int \<Rightarrow> bool" where
  "expired_spec s now =
     (0 <s TTL s \<and> absolute_deadline s < now \<or> 0 <s IdleTTL s \<and> idle_deadline s < now)"

definition usage_nonneg :: "Session \<Rightarrow> bool" where
  "usage_nonneg s =
     (0 \<le>s EntityCount s \<and> 0 \<le>s RelationshipCount s \<and>
      0 \<le>s DocumentCount s \<and> 0 \<le>s MemoryBytes s)"

text \<open>
  An increment is used as meant when it adds a non-negative amount that the counter can
  hold; a decrement may ask for anything.
\<close>

fun usage_op_ok :: "usage_op \<Rightarrow> Session \<Rightarrow> bool" where
  "usage_op_ok (IncEntity n) s = (0 \<le>s n \<and> add_fits (EntityCount s) n)"
| "usage_op_ok (IncRelationship n) s = (0 \<le>s n \<and> add_fits (RelationshipCount s) n)"
| "usage_op_ok (IncDocument n) s = (0 \<le>s n \<and> add_fits (DocumentCount s) n)"
| "usage_op_ok (AddMem n) s = (0 \<le>s n \<and> add_fits (MemoryBytes s) n)"
| "usage_op_ok _ s = True"

fun usage_run_ok :: "usage_op list \<Rightarrow> Session \<Rightarrow> bool" where
  "usage_run_ok [] s = True"
| "usage_run_ok (x # xs) s = (usage_op_ok x s \<and> usage_run_ok xs (apply_usage x s))"

subsection \<open>Sessions used as concrete inputs\<close>

definition session_both_ttl :: Session where
  "session_both_ttl = SetIdleTTL 20 (SetTTL 100 (Touch 1050 (NewSession ''s0'' 1000)))"

definition session_capped :: Session where
  "session_capped = IncrementEntity 2 (SetQuotas 3 3 3 3 (NewSession ''s1'' 1000))"

definition session_epoch :: Session where
  "session_epoch = SetIdleTTL 10 (SetTTL 5 ((NewSession ''s2'' 0)\<lparr>CreatedAt := - 5\<rparr>))"

definition session_long_ttl :: Session where
  "session_long_ttl = SetTTL 0x7FFFFFFFFFFFFFFF (NewSession ''s3'' 1000)"

definition usage_trace :: "usage_op list" where
  "usage_trace = [IncEntity 2, DecEntity 5, AddMem 10, SubMem 3, IncEntity 1, DecDocument 1]"

section \<open>Cleanup scheduler (pkg/engine: cleanup_scheduler.go)\<close>

text \<open>
  An entry of the expiry heap. The heap is a slice of pointers to entries; an entry is
  reached from one place of the slice only, so the slice of the entries themselves has
  the same behaviour.
\<close>

record sessionExpiry =
  sessionID :: string
  expireAt :: int64
  index :: go_int

type_synonym expiryHeap = "sessionExpiry list"

text \<open>The methods \<open>Less\<close> and \<open>Swap\<close> of \<open>expiryHeap\<close>; \<open>Swap\<close> keeps the \<open>index\<close> fields right.\<close>

definition Less :: "expiryHeap \<Rightarrow> nat \<Rightarrow> nat \<Rightarrow> bool" where
  "Less h i j = (expireAt (h ! i) <s expireAt (h ! j))"

definition Swap :: "expiryHeap \<Rightarrow> nat \<Rightarrow> nat \<Rightarrow> expiryHeap" where
  "Swap h i j =
     (let hi = h ! i; hj = h ! j
      in h[i := hj\<lparr>index := of_nat i\<rparr>, j := hi\<lparr>index := of_nat j\<rparr>])"

text \<open>
  \<open>down\<close> of the standard library's container/heap, which \<open>heap.Pop\<close> runs on the heap:
  the entry at \<open>i\<close> sinks below its smaller child until neither child is smaller.
\<close>

function down :: "expiryHeap \<Rightarrow> nat \<Rightarrow> nat \<Rightarrow> expiryHeap" where
  "down h i n =
     (let j1 = 2 * i + 1
      in if n \<le> j1 then h
         else (let j = (if j1 + 1 < n \<and> Less h (j1 + 1) j1 then j1 + 1 else j1)
               in if \<not> Less h j i then h else down (Swap h i j) j n))"
  by pat_completeness auto
termination
  by (relation "measure (\<lambda>(h, i, n). n - i)") (auto simp: Let_def split: if_splits)

declare down.simps [simp del]

text \<open>
  The method \<open>Pop\<close> of \<open>expiryHeap\<close> takes the last entry off, and \<open>heap.Pop\<close> of
  container/heap swaps the root there first and repairs the rest. On an empty heap the
  code panics (\<open>None\<close>); \<open>cleanup\<close> pops only when the heap is not empty.
\<close>

definition expiryHeap_Pop :: "expiryHeap \<Rightarrow> sessionExpiry \<times> expiryHeap" where
  "expiryHeap_Pop old = ((last old)\<lparr>index := - 1\<rparr>, butlast old)"

definition heap_Pop :: "expiryHeap \<Rightarrow> (sessionExpiry \<times> expiryHeap) option" where
  "heap_Pop h =
     (if h = [] then None
      else (let n = length h - 1 in Some (expiryHeap_Pop (down (Swap h 0 n) 0 n))))"

text \<open>
  The scheduler: its heap and the keys of its \<open>heapIndex\<close> map. The value the map holds
  for a key is the pointer to that session's heap entry, which is in the heap.
\<close>

record SessionCleanupScheduler =
  heap :: expiryHeap
  heapIndex :: "string set"

text \<open>The heap operations keep the length, which lets the loop of \<open>cleanup\<close> terminate.\<close>

lemma length_Swap [simp]: "length (Swap h i j) = length h"
  by (simp add: Swap_def Let_def)

lemma length_down [simp]: "length (down h i n) = length h"
proof (induction h i n rule: down.induct)
  case (1 h i n)
  show ?case
    using 1 by (subst down.simps) (simp add: Let_def)
qed

text \<open>
  The first loop of \<open>cleanup\<close>: while the root is due at \<open>now\<close>, pop it, note its
  session for removal and delete it from \<open>heapIndex\<close>.
\<close>

function pop_due ::
  "int64 \<Rightarrow> SessionCleanupScheduler \<Rightarrow> string list
   \<Rightarrow> (SessionCleanupScheduler \<times> string list) option" where
  "pop_due now s toRemove =
     (if 0 < length (heap s) \<and> expireAt (heap s ! 0) \<le>s now
      then (case heap_Pop (heap s) of
              None \<Rightarrow> None
            | Some (expiry, h') \<Rightarrow>
                pop_due now
                  (s\<lparr>heap := h', heapIndex := heapIndex s - {sessionID expiry}\<rparr>)
                  (toRemove @ [sessionID expiry]))
      else Some (s, toRemove))"
  by pat_completeness auto
termination
  by (relation "measure (\<lambda>(now, s, toRemove). length (heap s))")
    (auto simp: heap_Pop_def expiryHeap_Pop_def Let_def split: if_splits)

declare pop_due.simps [simp del]

text \<open>
  The second loop of \<open>cleanup\<close>, over the sessions noted: a session still in the
  engine's map is deleted when \<open>IsExpired\<close> holds. \<open>IsExpired\<close> reads the clock anew at
  every call: \<open>clock p\<close> is the reading taken by the call made in the iteration number
  \<open>p\<close> of the loop, the one that handles \<open>toRemove[p]\<close>. An iteration whose session is no
  longer in the map makes no call, and its reading is not used.
\<close>

fun evict ::
  "(nat \<Rightarrow> int64) \<Rightarrow> nat \<Rightarrow> string list \<Rightarrow> (string \<rightharpoonup> Session) \<Rightarrow> (string \<rightharpoonup> Session)" where
  "evict clock p [] sessions = sessions"
| "evict clock p (sid # rest) sessions =
     (case sessions sid of
        None \<Rightarrow> evict clock (p + 1) rest sessions
      | Some sess \<Rightarrow>
          if IsExpired sess (clock p)
          then evict clock (p + 1) rest (sessions(sid := None))
          else evict clock (p + 1) rest sessions)"

text \<open>
  \<open>cleanup\<close>: \<open>now\<close> is the clock reading at its start, \<open>sessions\<close> is the engine's map as
  it is when the second loop runs.
\<close>

definition cleanup ::
  "int64 \<Rightarrow> (nat \<Rightarrow> int64) \<Rightarrow> SessionCleanupScheduler \<Rightarrow> (string \<rightharpoonup> Session)
   \<Rightarrow> (SessionCleanupScheduler \<times> (string \<rightharpoonup> Session)) option" where
  "cleanup now clock s sessions =
     (case pop_due now s [] of
        None \<Rightarrow> None
      | Some (s', toRemove) \<Rightarrow>
          Some (s', if 0 < length toRemove then evict clock 0 toRemove sessions else sessions))"

subsection \<open>What the specification says about the scheduler\<close>

text \<open>
  The expiry time of an entry as a number; what identifies an entry apart from its place;
  the order of a min-heap on a prefix of the slice, and that order with the entry at \<open>i\<close>
  possibly too large for its children; the child \<open>down\<close> compares with; and the sessions
  of the entries that are due at \<open>now\<close>.
\<close>

definition ea :: "sessionExpiry \<Rightarrow> int" where
  "ea e = sint (expireAt e)"

definition entry_key :: "sessionExpiry \<Rightarrow> string \<times> int64" where
  "entry_key e = (sessionID e, expireAt e)"

definition heap_upto :: "expiryHeap \<Rightarrow> nat \<Rightarrow> bool" where
  "heap_upto h n = (\<forall>j. 0 < j \<and> j < n \<longrightarrow> ea (h ! ((j - 1) div 2)) \<le> ea (h ! j))"

definition heap_ordered :: "expiryHeap \<Rightarrow> bool" where
  "heap_ordered h = heap_upto h (length h)"

definition heap_except :: "expiryHeap \<Rightarrow> nat \<Rightarrow> nat \<Rightarrow> bool" where
  "heap_except h n i =
     ((\<forall>j. 0 < j \<and> j < n \<and> (j - 1) div 2 \<noteq> i \<longrightarrow> ea (h ! ((j - 1) div 2)) \<le> ea (h ! j)) \<and>
      (0 < i \<longrightarrow> (\<forall>j. 0 < j \<and> j < n \<and> (j - 1) div 2 = i \<longrightarrow>
                     ea (h ! ((i - 1) div 2)) \<le> ea (h ! j))))"

definition smaller_child :: "expiryHeap \<Rightarrow> nat \<Rightarrow> nat \<Rightarrow> nat" where
  "smaller_child h i n =
     (if 2 * i + 2 < n \<and> Less h (2 * i + 2) (2 * i + 1) then 2 * i + 2 else 2 * i + 1)"

definition due_ids :: "int64 \<Rightarrow> expiryHeap \<Rightarrow> string set" where
  "due_ids now h = {sid. \<exists>e\<in>set h. sessionID e = sid \<and> expireAt e \<le>s now}"

text \<open>
  A session is found expired at its re-check: it is noted at some place \<open>p\<close> of the list,
  it is in the engine's map, and its expiry predicate holds at the clock reading of the
  iteration that handles that place (the iterations are numbered from \<open>k\<close>).
\<close>

definition rechecked_expired ::
  "(nat \<Rightarrow> int64) \<Rightarrow> nat \<Rightarrow> string list \<Rightarrow> (string \<rightharpoonup> Session) \<Rightarrow> string \<Rightarrow> bool" where
  "rechecked_expired clock k ids sessions sid =
     (\<exists>p<length ids. ids ! p = sid \<and>
        (\<exists>sess. sessions sid = Some sess \<and> IsExpired sess (clock (k + p))))"

subsection \<open>A scheduler and an engine used as concrete inputs\<close>

definition sched3 :: SessionCleanupScheduler where
  "sched3 =
     \<lparr> heap = [\<lparr>sessionID = ''a'', expireAt = 5, index = 0\<rparr>,
               \<lparr>sessionID = ''b'', expireAt = 10, index = 1\<rparr>,
               \<lparr>sessionID = ''c'', expireAt = 7, index = 2\<rparr>],
       heapIndex = {''a'', ''b'', ''c''} \<rparr>"

text \<open>
  Session a: created at 0 with TTL 5. Session b: created at 0 with TTL 10. Session c:
  created at 0 with idle TTL 7, and touched at 8 after it was scheduled for 7.
\<close>

definition engine3 :: "string \<rightharpoonup> Session" where
  "engine3 =
     [''a'' \<mapsto> SetTTL 5 (NewSession ''a'' 0),
      ''b'' \<mapsto> SetTTL 10 (NewSession ''b'' 0),
      ''c'' \<mapsto> Touch 8 (SetIdleTTL 7 (NewSession ''c'' 0))]"

text \<open>A clock that reads 9 at the first re-check and one more at every further one.\<close>

definition clock3 :: "nat \<Rightarrow> int64" where
  "clock3 p = 9 + of_nat p"

section \<open>Durability formats (pkg/backup: WAL entries and snapshot files)\<close>

text \<open>
  Of the package \<open>backup\<close> the sources hold the tests (\<open>backup_test.go\<close>,
  \<open>critical_test.go\<close>) and nothing else. The tests show what the package declares: the
  struct \<open>WALEntry\<close> with the fields \<open>LSN\<close>, \<open>Timestamp\<close>, \<open>Type\<close>, \<open>Key\<close>, \<open>Data\<close> and
  \<open>Checksum\<close>; \<open>wal.Append\<close> and \<open>ReadEntries\<close>; the struct \<open>SnapshotHeader\<close>, whose first
  field is the magic \<open>GRAM\<close> and which is written with \<open>binary.Write\<close>; and
  \<open>NewSnapshotReader\<close>, which opens a file that starts with \<open>GRAM\<close> and returns an error
  for a file that starts with \<open>BAD!\<close> and for a path with no file. The files that
  implement them, the WAL writer and reader and the snapshot writer and reader, are
  missing. The formats below are therefore modelled from sections 4.4 and 4.5 of the
  specification; every such definition says so.
\<close>

type_synonym byte = "8 word"

text \<open>
  \<open>encoding/binary\<close> of the standard library. \<open>binary.LittleEndian\<close>: \<open>PutUint\<close>N writes
  the least significant byte first, \<open>Uint\<close>N reads the first N/8 bytes of a slice back.
\<close>

definition PutUint32 :: "32 word \<Rightarrow> byte list" where
  "PutUint32 v = [ucast v, ucast (drop_bit 8 v), ucast (drop_bit 16 v), ucast (drop_bit 24 v)]"

definition PutUint64 :: "64 word \<Rightarrow> byte list" where
  "PutUint64 v =
     [ucast v, ucast (drop_bit 8 v), ucast (drop_bit 16 v), ucast (drop_bit 24 v),
      ucast (drop_bit 32 v), ucast (drop_bit 40 v), ucast (drop_bit 48 v),
      ucast (drop_bit 56 v)]"



text \<open>
  \<open>binary.ByteOrder\<close>: \<open>binary.BigEndian\<close> writes and reads the same bytes in the opposite
  order. The specification leaves the order open (little-endian, "big-endian acceptable
  provided readers match"), and the tests write the snapshot header with
  \<open>binary.BigEndian\<close>; so the order is an argument of the formats.
\<close>

datatype ByteOrder = LittleEndian | BigEndian

definition put_uint32 :: "ByteOrder \<Rightarrow> 32 word \<Rightarrow> byte list" where
  "put_uint32 order v =
     (case order of LittleEndian \<Rightarrow> PutUint32 v | BigEndian \<Rightarrow> rev (PutUint32 v))"

definition put_uint64 :: "ByteOrder \<Rightarrow> 64 word \<Rightarrow> byte list" where
  "put_uint64 order v =
     (case order of LittleEndian \<Rightarrow> PutUint64 v | BigEndian \<Rightarrow> rev (PutUint64 v))"



text \<open>The slice expression \<open>buf[i:j]\<close>, used only within the bounds of \<open>buf\<close>.\<close>

definition slice :: "byte list \<Rightarrow> nat \<Rightarrow> nat \<Rightarrow> byte list" where
  "slice buf i j = take (j - i) (drop i buf)"

subsection \<open>WAL entries\<close>






subsection \<open>Snapshot files\<close>

text \<open>
  Modelled from the spec: the magic of a snapshot file, "4-byte magic \<open>GRAM\<close>", "Magic
  \<open>GRAM\<close> (0x4752414D)". The declaration of the constant is missing (the snapshot source
  of the package \<open>backup\<close>); the tests spell it \<open>[4]byte{'G', 'R', 'A', 'M'}\<close>.
\<close>

definition snapshot_magic :: "byte list" where
  "snapshot_magic = [0x47, 0x52, 0x41, 0x4D]"

text \<open>
  Modelled from the spec: a snapshot file as the snapshot writer (missing) lays it out,
  "4-byte magic \<open>GRAM\<close>, fixed-size header (version, timestamp, LSN-at-prepare, rolling
  checksum placeholder, flags), then a gzip-compressed stream of named sections" and the
  footer. The widths of the header fields are not given: \<open>hdr\<close> is the bytes of the header
  after the magic, \<open>body\<close> the bytes of the compressed stream and the footer.
\<close>

definition write_snapshot :: "byte list \<Rightarrow> byte list \<Rightarrow> byte list" where
  "write_snapshot hdr body = snapshot_magic @ hdr @ body"

text \<open>
  Modelled from the spec: the errors of opening a snapshot (their declarations are
  missing, with the snapshot source of the package \<open>backup\<close>): no file at the path, a
  magic that is not \<open>GRAM\<close>, and \<open>SnapshotCorrupt\<close>, a file that ends too early.
\<close>

datatype snapshot_error = SnapshotNotFound | SnapshotInvalidMagic | SnapshotCorrupt

text \<open>
  Modelled from the spec: the reader that opening returns (the struct \<open>SnapshotReader\<close>,
  missing). It holds the header it has read and the stream that follows, from which the
  sections are decompressed.
\<close>

record SnapshotReader =
  header :: "byte list"
  stream :: "byte list"

text \<open>
  Modelled from the spec: \<open>NewSnapshotReader\<close> (missing), "Reader: open, read+validate
  magic, read header", the sections being decompressed from the stream afterwards. The
  file system is a map from paths to file contents, \<open>header_size\<close> is the fixed size of
  the header after the magic. Opening fails when there is no file at the path, when the
  file ends inside the magic or the header, and when the magic is not \<open>GRAM\<close>; an error
  is returned in place of a reader, so nothing of the file is loaded.
\<close>

definition NewSnapshotReader ::
  "nat \<Rightarrow> (string \<rightharpoonup> byte list) \<Rightarrow> string \<Rightarrow> snapshot_error + SnapshotReader" where
  "NewSnapshotReader header_size files path =
     (case files path of
        None \<Rightarrow> Inl SnapshotNotFound
      | Some contents \<Rightarrow>
          if length contents < 4 then Inl SnapshotCorrupt
          else if take 4 contents \<noteq> snapshot_magic then Inl SnapshotInvalidMagic
          else if length contents < 4 + header_size then Inl SnapshotCorrupt
          else Inr \<lparr> header = slice contents 4 (4 + header_size),
                     stream = drop (4 + header_size) contents \<rparr>)"

subsection \<open>Entries and files used as concrete inputs\<close>



definition header28 :: "byte list" where
  "header28 = put_uint32 BigEndian 1 @ replicate 24 0"

definition bad_file :: "byte list" where
  "bad_file = [0x42, 0x41, 0x44, 0x21] @ header28"

section \<open>Distance kernels (pkg/simd: distance.go, distance_amd64.go)\<close>

text \<open>
  A \<open>float32\<close> or \<open>float64\<close> value is a NaN, an infinity with its sign, or a finite number
  given by its sign (\<open>True\<close> is minus) and its magnitude, so that the two zeros differ.
  The type is wider than the formats; the operations round into them.
\<close>

datatype fp = Fin bool real | Infty bool | NaN

text \<open>
  A binary format: the precision in bits (with the hidden bit) and the least and greatest
  exponent of a normal number.
\<close>

record fmt =
  prec :: nat
  emin :: int
  emax :: int

definition binary32 :: fmt where
  "binary32 = \<lparr>prec = 24, emin = - 126, emax = 127\<rparr>"

definition binary64 :: fmt where
  "binary64 = \<lparr>prec = 53, emin = - 1022, emax = 1023\<rparr>"

text \<open>\<open>pow2 e\<close> is 2 to the power \<open>e\<close>; \<open>ilog2 x\<close> is the exponent of a positive \<open>x\<close>.\<close>

definition pow2 :: "int \<Rightarrow> real" where
  "pow2 e = (if 0 \<le> e then 2 ^ nat e else 1 / 2 ^ nat (- e))"

definition ilog2 :: "real \<Rightarrow> int" where
  "ilog2 x = (if 1 \<le> x then bitlen \<lfloor>x\<rfloor> - 1 else - bitlen (\<lceil>1 / x\<rceil> - 1))"

text \<open>Rounding to the nearest integer, a tie going to the even one.\<close>

definition round_even :: "real \<Rightarrow> int" where
  "round_even x =
     (let f = \<lfloor>x\<rfloor>; d = x - of_int f
      in if d < 1 / 2 then f else if 1 / 2 < d then f + 1 else if even f then f else f + 1)"

text \<open>
  Rounding a magnitude to a format (round to nearest, ties to even): the spacing is that
  of the binade of \<open>x\<close>, or of the subnormal numbers below the least normal exponent; a
  result beyond the greatest finite number is an infinity.
\<close>

definition round_mag :: "fmt \<Rightarrow> bool \<Rightarrow> real \<Rightarrow> fp" where
  "round_mag f s x =
     (if x = 0 then Fin s 0
      else (let q = pow2 (max (ilog2 x) (emin f) - int (prec f) + 1);
                r = of_int (round_even (x / q)) * q
            in if pow2 (emax f + 1) \<le> r then Infty s else Fin s r))"

text \<open>The arithmetic of IEEE 754: the exact result, rounded; the special cases spelled out.\<close>

definition sval :: "bool \<Rightarrow> real \<Rightarrow> real" where
  "sval s m = (if s then - m else m)"

definition fp_zero :: fp where
  "fp_zero = Fin False 0"

fun fp_neg :: "fp \<Rightarrow> fp" where
  "fp_neg (Fin s m) = Fin (\<not> s) m"
| "fp_neg (Infty s) = Infty (\<not> s)"
| "fp_neg NaN = NaN"

fun fp_mul :: "fmt \<Rightarrow> fp \<Rightarrow> fp \<Rightarrow> fp" where
  "fp_mul f (Fin s1 m1) (Fin s2 m2) = round_mag f (s1 \<noteq> s2) (m1 * m2)"
| "fp_mul f (Fin s1 m1) (Infty s2) = (if m1 = 0 then NaN else Infty (s1 \<noteq> s2))"
| "fp_mul f (Infty s1) (Fin s2 m2) = (if m2 = 0 then NaN else Infty (s1 \<noteq> s2))"
| "fp_mul f (Infty s1) (Infty s2) = Infty (s1 \<noteq> s2)"
| "fp_mul f _ _ = NaN"

fun fp_add :: "fmt \<Rightarrow> fp \<Rightarrow> fp \<Rightarrow> fp" where
  "fp_add f (Fin s1 m1) (Fin s2 m2) =
     (let v = sval s1 m1 + sval s2 m2
      in if v = 0 then Fin (s1 \<and> s2) 0 else round_mag f (v < 0) \<bar>v\<bar>)"
| "fp_add f (Fin s1 m1) (Infty s2) = Infty s2"
| "fp_add f (Infty s1) (Fin s2 m2) = Infty s1"
| "fp_add f (Infty s1) (Infty s2) = (if s1 = s2 then Infty s1 else NaN)"
| "fp_add f _ _ = NaN"

definition fp_sub :: "fmt \<Rightarrow> fp \<Rightarrow> fp \<Rightarrow> fp" where
  "fp_sub f a b = fp_add f a (fp_neg b)"

fun fp_div :: "fmt \<Rightarrow> fp \<Rightarrow> fp \<Rightarrow> fp" where
  "fp_div f (Fin s1 m1) (Fin s2 m2) =
     (if m2 = 0 then (if m1 = 0 then NaN else Infty (s1 \<noteq> s2))
      else round_mag f (s1 \<noteq> s2) (m1 / m2))"
| "fp_div f (Fin s1 m1) (Infty s2) = Fin (s1 \<noteq> s2) 0"
| "fp_div f (Infty s1) (Fin s2 m2) = Infty (s1 \<noteq> s2)"
| "fp_div f _ _ = NaN"

fun fp_sqrt :: "fmt \<Rightarrow> fp \<Rightarrow> fp" where
  "fp_sqrt f (Fin s m) =
     (if m = 0 then Fin s 0 else if s then NaN else round_mag f False (sqrt m))"
| "fp_sqrt f (Infty s) = (if s then NaN else Infty False)"
| "fp_sqrt f NaN = NaN"

text \<open>Go's \<open>==\<close> and \<open><=\<close> on floats: false with a NaN, and the two zeros are equal.\<close>

fun fp_eq :: "fp \<Rightarrow> fp \<Rightarrow> bool" where
  "fp_eq (Fin s1 m1) (Fin s2 m2) = (sval s1 m1 = sval s2 m2)"
| "fp_eq (Infty s1) (Infty s2) = (s1 = s2)"
| "fp_eq _ _ = False"

fun fp_le :: "fp \<Rightarrow> fp \<Rightarrow> bool" where
  "fp_le (Fin s1 m1) (Fin s2 m2) = (sval s1 m1 \<le> sval s2 m2)"
| "fp_le (Fin s1 m1) (Infty s2) = (\<not> s2)"
| "fp_le (Infty s1) (Fin s2 m2) = s1"
| "fp_le (Infty s1) (Infty s2) = (s1 \<or> \<not> s2)"
| "fp_le _ _ = False"

text \<open>Conversion between the float types rounds to the target format.\<close>

fun fp_conv :: "fmt \<Rightarrow> fp \<Rightarrow> fp" where
  "fp_conv f (Fin s m) = round_mag f s m"
| "fp_conv f (Infty s) = Infty s"
| "fp_conv f NaN = NaN"

type_synonym float32 = fp
type_synonym float64 = fp

definition float32_of :: "float64 \<Rightarrow> float32" where
  "float32_of x = fp_conv binary32 x"

definition float64_of :: "float32 \<Rightarrow> float64" where
  "float64_of x = fp_conv binary64 x"

text \<open>
  \<open>int64(x)\<close> truncates towards zero. Go leaves the result open when the value does not
  fit; the code is built for amd64 only, whose conversion instruction then yields the
  least 64-bit integer. \<open>float64(i)\<close> rounds the integer to the nearest double.
\<close>

fun int64_of_float64 :: "float64 \<Rightarrow> int64" where
  "int64_of_float64 (Fin s m) =
     (let t = (if s then - \<lfloor>m\<rfloor> else \<lfloor>m\<rfloor>)
      in if - (2 ^ 63) \<le> t \<and> t < 2 ^ 63 then word_of_int t else 0x8000000000000000)"
| "int64_of_float64 _ = 0x8000000000000000"

definition float64_of_int64 :: "int64 \<Rightarrow> float64" where
  "float64_of_int64 i = round_mag binary64 (sint i < 0) \<bar>of_int (sint i)\<bar>"

text \<open>\<open>math.Sqrt\<close> of the standard library: the square root, correctly rounded.\<close>

definition math_Sqrt :: "float64 \<Rightarrow> float64" where
  "math_Sqrt x = fp_sqrt binary64 x"

text \<open>
  \<open>fastSqrt\<close> and \<open>float32Sqrt\<close> of distance_amd64.go. \<open>>> 1\<close> on an \<open>int64\<close> is the
  arithmetic shift, and the subtraction wraps around.
\<close>

definition fastSqrt :: "float64 \<Rightarrow> float64" where
  "fastSqrt x =
     (if fp_le x fp_zero then fp_zero
      else (let half = fp_mul binary64 x (Fin False (1 / 2));
                i = 0x5fe6eb50c7b537a9 - signed_drop_bit 1 (int64_of_float64 x);
                y = float64_of_int64 i;
                y = fp_mul binary64 y
                      (fp_sub binary64 (Fin False (3 / 2))
                         (fp_mul binary64 (fp_mul binary64 half y) y))
            in fp_mul binary64 x y))"

definition float32Sqrt :: "float32 \<Rightarrow> float32" where
  "float32Sqrt x = float32_of (fastSqrt (float64_of x))"

text \<open>
  The three loop shapes of the kernels: \<open>for ; i < n; i++\<close> (also \<open>for i := range a\<close>,
  from 0), the unrolled inner loop \<open>for j := 0; j < 8; j++\<close> at the offset \<open>i\<close>, and the
  widened loop \<open>for ; i+8 <= n; i += 8\<close>, which hands the index it stopped at to the
  loop over the remaining elements.
\<close>

function for_range :: "(nat \<Rightarrow> 's \<Rightarrow> 's) \<Rightarrow> nat \<Rightarrow> nat \<Rightarrow> 's \<Rightarrow> 's" where
  "for_range body n i acc = (if i < n then for_range body n (i + 1) (body i acc) else acc)"
  by pat_completeness auto
termination
  by (relation "measure (\<lambda>(body, n, i, acc). n - i)") auto

function for_lanes :: "(nat \<Rightarrow> 's \<Rightarrow> 's) \<Rightarrow> nat \<Rightarrow> nat \<Rightarrow> 's \<Rightarrow> 's" where
  "for_lanes body i j acc = (if j < 8 then for_lanes body i (j + 1) (body (i + j) acc) else acc)"
  by pat_completeness auto
termination
  by (relation "measure (\<lambda>(body, i, j, acc). 8 - j)") auto

function for_chunks :: "(nat \<Rightarrow> 's \<Rightarrow> 's) \<Rightarrow> nat \<Rightarrow> nat \<Rightarrow> 's \<Rightarrow> nat \<times> 's" where
  "for_chunks body n i acc =
     (if i + 8 \<le> n then for_chunks body n (i + 8) (for_lanes body i 0 acc) else (i, acc))"
  by pat_completeness auto
termination
  by (relation "measure (\<lambda>(body, n, i, acc). n - i)") auto

text \<open>
  The loop bodies. Every product and every sum is a \<open>float32\<close> operation of its own
  (no fused multiply-add, as in a default amd64 build). The indices are in range: the
  loops run where the two lengths are equal.
\<close>

definition cosine_body ::
  "float32 list \<Rightarrow> float32 list \<Rightarrow> nat \<Rightarrow> float32 \<times> float32 \<times> float32
   \<Rightarrow> float32 \<times> float32 \<times> float32" where
  "cosine_body a b idx acc =
     (case acc of (dot, normA, normB) \<Rightarrow>
        (fp_add binary32 dot (fp_mul binary32 (a ! idx) (b ! idx)),
         fp_add binary32 normA (fp_mul binary32 (a ! idx) (a ! idx)),
         fp_add binary32 normB (fp_mul binary32 (b ! idx) (b ! idx))))"

definition cosineSimilarityScalar :: "float32 list \<Rightarrow> float32 list \<Rightarrow> float32" where
  "cosineSimilarityScalar a b =
     (if length a \<noteq> length b then fp_zero
      else (case for_range (cosine_body a b) (length a) 0 (fp_zero, fp_zero, fp_zero) of
              (dot, normA, normB) \<Rightarrow>
                if fp_eq normA fp_zero \<or> fp_eq normB fp_zero then fp_zero
                else fp_div binary32 dot
                       (fp_mul binary32 (float32_of (math_Sqrt (float64_of normA)))
                          (float32_of (math_Sqrt (float64_of normB))))))"

definition cosineSimilarityAVX2 :: "float32 list \<Rightarrow> float32 list \<Rightarrow> float32" where
  "cosineSimilarityAVX2 a b =
     (let n = length a
      in if n \<noteq> length b then fp_zero
         else (case for_chunks (cosine_body a b) n 0 (fp_zero, fp_zero, fp_zero) of
                 (i, acc) \<Rightarrow>
                   (case for_range (cosine_body a b) n i acc of
                      (dot, normA, normB) \<Rightarrow>
                        if fp_eq normA fp_zero \<or> fp_eq normB fp_zero then fp_zero
                        else fp_div binary32 dot
                               (fp_mul binary32 (float32Sqrt normA) (float32Sqrt normB)))))"

definition euclid_body :: "float32 list \<Rightarrow> float32 list \<Rightarrow> nat \<Rightarrow> float32 \<Rightarrow> float32" where
  "euclid_body a b idx sm =
     (let diff = fp_sub binary32 (a ! idx) (b ! idx)
      in fp_add binary32 sm (fp_mul binary32 diff diff))"

definition dot_body :: "float32 list \<Rightarrow> float32 list \<Rightarrow> nat \<Rightarrow> float32 \<Rightarrow> float32" where
  "dot_body a b idx sm = fp_add binary32 sm (fp_mul binary32 (a ! idx) (b ! idx))"

definition norm_body :: "float32 list \<Rightarrow> nat \<Rightarrow> float32 \<Rightarrow> float32" where
  "norm_body a idx sm = fp_add binary32 sm (fp_mul binary32 (a ! idx) (a ! idx))"

definition euclideanDistanceScalar :: "float32 list \<Rightarrow> float32 list \<Rightarrow> float32" where
  "euclideanDistanceScalar a b =
     (if length a \<noteq> length b then fp_zero
      else float32_of (math_Sqrt (float64_of
             (for_range (euclid_body a b) (length a) 0 fp_zero))))"

definition euclideanDistanceAVX2 :: "float32 list \<Rightarrow> float32 list \<Rightarrow> float32" where
  "euclideanDistanceAVX2 a b =
     (let n = length a
      in if n \<noteq> length b then fp_zero
         else (case for_chunks (euclid_body a b) n 0 fp_zero of
                 (i, sm) \<Rightarrow> float32Sqrt (for_range (euclid_body a b) n i sm)))"

definition dotProductScalar :: "float32 list \<Rightarrow> float32 list \<Rightarrow> float32" where
  "dotProductScalar a b =
     (if length a \<noteq> length b then fp_zero
      else for_range (dot_body a b) (length a) 0 fp_zero)"

definition dotProductAVX2 :: "float32 list \<Rightarrow> float32 list \<Rightarrow> float32" where
  "dotProductAVX2 a b =
     (let n = length a
      in if n \<noteq> length b then fp_zero
         else (case for_chunks (dot_body a b) n 0 fp_zero of
                 (i, sm) \<Rightarrow> for_range (dot_body a b) n i sm))"

definition l2NormScalar :: "float32 list \<Rightarrow> float32" where
  "l2NormScalar a =
     float32_of (math_Sqrt (float64_of (for_range (norm_body a) (length a) 0 fp_zero)))"

definition l2NormAVX2 :: "float32 list \<Rightarrow> float32" where
  "l2NormAVX2 a =
     (let n = length a
      in case for_chunks (norm_body a) n 0 fp_zero of
           (i, sm) \<Rightarrow> float32Sqrt (for_range (norm_body a) n i sm))"

text \<open>
  The public functions. \<open>hasAVX2()\<close> reads a package variable set once at start-up from
  the CPU's features; it is the argument \<open>hasAVX2\<close>.
\<close>

definition CosineSimilarity :: "bool \<Rightarrow> float32 list \<Rightarrow> float32 list \<Rightarrow> float32" where
  "CosineSimilarity hasAVX2 a b =
     (if length a \<noteq> length b then fp_zero
      else if hasAVX2 \<and> 8 \<le> length a then cosineSimilarityAVX2 a b
      else cosineSimilarityScalar a b)"

definition EuclideanDistance :: "bool \<Rightarrow> float32 list \<Rightarrow> float32 list \<Rightarrow> float32" where
  "EuclideanDistance hasAVX2 a b =
     (if length a \<noteq> length b then fp_zero
      else if hasAVX2 \<and> 8 \<le> length a then euclideanDistanceAVX2 a b
      else euclideanDistanceScalar a b)"

definition DotProduct :: "bool \<Rightarrow> float32 list \<Rightarrow> float32 list \<Rightarrow> float32" where
  "DotProduct hasAVX2 a b =
     (if length a \<noteq> length b then fp_zero
      else if hasAVX2 \<and> 8 \<le> length a then dotProductAVX2 a b
      else dotProductScalar a b)"

definition L2Norm :: "bool \<Rightarrow> float32 list \<Rightarrow> float32" where
  "L2Norm hasAVX2 a = (if hasAVX2 \<and> 8 \<le> length a then l2NormAVX2 a else l2NormScalar a)"

subsection \<open>What the specification says about the kernels\<close>

text \<open>
  A zero of either sign; the squared norm of a vector as the kernels accumulate it; and
  the tolerance between the widened and the scalar path.
\<close>

fun is_zero :: "fp \<Rightarrow> bool" where
  "is_zero (Fin s m) = (m = 0)"
| "is_zero _ = False"

abbreviation sq_step :: "fp \<Rightarrow> fp \<Rightarrow> fp" where
  "sq_step acc x \<equiv> fp_add binary32 acc (fp_mul binary32 x x)"

definition sum_squares :: "float32 list \<Rightarrow> float32" where
  "sum_squares a = foldl sq_step fp_zero a"

definition within_tolerance_spec :: "fp \<Rightarrow> fp \<Rightarrow> bool" where
  "within_tolerance_spec x y =
     (case (x, y) of
        (Fin s1 m1, Fin s2 m2) \<Rightarrow> \<bar>sval s1 m1 - sval s2 m2\<bar> < 1 / 100000
      | _ \<Rightarrow> False)"

subsection \<open>Vectors used as concrete inputs\<close>

definition unit_vector8 :: "float32 list" where
  "unit_vector8 = [Fin False 1, fp_zero, fp_zero, fp_zero, fp_zero, fp_zero, fp_zero, fp_zero]"

definition zeros9 :: "float32 list" where
  "zeros9 = replicate 9 (Fin True 0)"

definition mixed9 :: "float32 list" where
  "mixed9 = [Fin False 1, Fin True 2, NaN, Infty False, fp_zero, Fin False 3, Fin False 4,
     Fin False 5, Fin False 6]"

chapter \<open>Theorems\<close>

section \<open>Sessions\<close>

lemma sint_add_fits: "add_fits a b \<Longrightarrow> sint (a + b) = sint a + sint b"
  unfolding add_fits_def
  by (simp add: sint_word_ariths signed_take_bit_int_eq_self)

lemma sless_add_fits: "add_fits a b \<Longrightarrow> (m <s a + b) = (sint m < sint a + sint b)"
  by (simp add: word_sless_alt sint_add_fits)

lemma clamp_nonneg: "0 \<le>s (if c <s 0 then 0 else (c::int64))"
  by (simp add: word_sle_eq word_sless_alt)

lemma add_nonneg_fits: "0 \<le>s a \<Longrightarrow> 0 \<le>s n \<Longrightarrow> add_fits a n \<Longrightarrow> 0 \<le>s a + n"
  by (simp add: word_sle_eq sint_add_fits)

lemma apply_usage_nonneg:
  "usage_nonneg s \<Longrightarrow> usage_op_ok x s \<Longrightarrow> usage_nonneg (apply_usage x s)"
  by (cases x)
    (simp_all add: usage_nonneg_def IncrementEntity_def DecrementEntity_def
      IncrementRelationship_def DecrementRelationship_def IncrementDocument_def
      DecrementDocument_def AddMemory_def SubMemory_def Let_def clamp_nonneg add_nonneg_fits)

lemma apply_usages_nonneg:
  "usage_nonneg s \<Longrightarrow> usage_run_ok xs s \<Longrightarrow> usage_nonneg (apply_usages xs s)"
  by (induction xs arbitrary: s) (simp_all add: apply_usage_nonneg)

lemmas session_input_defs =
  session_both_ttl_def session_capped_def session_epoch_def session_long_ttl_def
  NewSession_def Touch_def SetTTL_def SetIdleTTL_def SetQuotas_def IncrementEntity_def

text \<open>
  C2 (amended). For a session with a positive quota, and an increment \<open>d\<close> whose sum
  with the current count is a 64-bit value, the pre-check succeeds exactly when
  current + d \<le> max, and fails with the quota error of its kind otherwise; so a count
  that reaches the quota exactly is admitted and one more is refused. This holds for
  entities, relationships, documents and memory bytes alike.
\<close>

theorem quota_check_exact:
  "(0 <s MaxEntities s \<and> add_fits (EntityCount s) d \<longrightarrow>
      CheckEntityQuota s d =
        (if quota_admits_spec (EntityCount s) d (MaxEntities s) then None
         else Some ErrEntityQuotaExceeded)) \<and>
   (0 <s MaxRelationships s \<and> add_fits (RelationshipCount s) d \<longrightarrow>
      CheckRelationshipQuota s d =
        (if quota_admits_spec (RelationshipCount s) d (MaxRelationships s) then None
         else Some ErrRelationshipQuotaExceeded)) \<and>
   (0 <s MaxDocuments s \<and> add_fits (DocumentCount s) d \<longrightarrow>
      CheckDocumentQuota s d =
        (if quota_admits_spec (DocumentCount s) d (MaxDocuments s) then None
         else Some ErrDocumentQuotaExceeded)) \<and>
   (0 <s MaxMemoryBytes s \<and> add_fits (MemoryBytes s) d \<longrightarrow>
      CheckMemoryQuota s d =
        (if quota_admits_spec (MemoryBytes s) d (MaxMemoryBytes s) then None
         else Some ErrMemoryQuotaExceeded))"
  by (auto simp: CheckEntityQuota_def CheckRelationshipQuota_def CheckDocumentQuota_def
      CheckMemoryQuota_def quota_admits_spec_def sless_add_fits)

text \<open>
  The session holds 2 entities of at most 3: one more is admitted (the count reaches the
  quota), two more are refused. The other three kinds stand at 0 of 3.
\<close>

theorem quota_check_exact_witness:
  "0 <s MaxEntities session_capped \<and> add_fits (EntityCount session_capped) 1 \<and>
   add_fits (EntityCount session_capped) 2 \<and>
   CheckEntityQuota session_capped 1 = None \<and>
   CheckEntityQuota session_capped 2 = Some ErrEntityQuotaExceeded \<and>
   CheckRelationshipQuota session_capped 3 = None \<and>
   CheckDocumentQuota session_capped 4 = Some ErrDocumentQuotaExceeded \<and>
   CheckMemoryQuota session_capped 3 = None"
proof -
  have h: "0 <s MaxEntities session_capped" "add_fits (EntityCount session_capped) 1"
    "add_fits (EntityCount session_capped) 2"
    "0 <s MaxRelationships session_capped" "add_fits (RelationshipCount session_capped) 3"
    "0 <s MaxDocuments session_capped" "add_fits (DocumentCount session_capped) 4"
    "0 <s MaxMemoryBytes session_capped" "add_fits (MemoryBytes session_capped) 3"
    by (simp_all add: session_input_defs add_fits_def word_sless_alt)
  show ?thesis
    using h quota_check_exact [of session_capped 1] quota_check_exact [of session_capped 2]
      quota_check_exact [of session_capped 3] quota_check_exact [of session_capped 4]
    by (simp add: quota_admits_spec_def session_input_defs)
qed

text \<open>
  The claim as stated fails where the sum leaves the 64-bit range: with 2 entities of at
  most 3, a request for 2^63 - 1 more passes the pre-check, although 2 + (2^63 - 1) > 3.
\<close>

theorem quota_check_overflow_counterexample:
  "0 <s MaxEntities session_capped \<and>
   CheckEntityQuota session_capped 0x7FFFFFFFFFFFFFFF = None \<and>
   \<not> quota_admits_spec (EntityCount session_capped) 0x7FFFFFFFFFFFFFFF
        (MaxEntities session_capped)"
  by (simp add: CheckEntityQuota_def quota_admits_spec_def session_input_defs word_sless_alt)

text \<open>
  C10. A quota of zero means unlimited: when the maximum of a kind is 0, the check of
  that kind succeeds for every requested increment, whatever the current count.
\<close>

theorem zero_quota_unlimited:
  "(MaxEntities s = 0 \<longrightarrow> CheckEntityQuota s d = None) \<and>
   (MaxRelationships s = 0 \<longrightarrow> CheckRelationshipQuota s d = None) \<and>
   (MaxDocuments s = 0 \<longrightarrow> CheckDocumentQuota s d = None) \<and>
   (MaxMemoryBytes s = 0 \<longrightarrow> CheckMemoryQuota s d = None)"
  by (simp add: CheckEntityQuota_def CheckRelationshipQuota_def CheckDocumentQuota_def
      CheckMemoryQuota_def)

theorem zero_quota_unlimited_witness:
  "MaxEntities (IncrementEntity 7 (NewSession ''s'' 1)) = 0 \<and>
   CheckEntityQuota (IncrementEntity 7 (NewSession ''s'' 1)) 1000000 = None \<and>
   CheckRelationshipQuota (IncrementEntity 7 (NewSession ''s'' 1)) 1000000 = None \<and>
   CheckDocumentQuota (IncrementEntity 7 (NewSession ''s'' 1)) 1000000 = None \<and>
   CheckMemoryQuota (IncrementEntity 7 (NewSession ''s'' 1)) 1000000 = None"
proof -
  have h: "MaxEntities (IncrementEntity 7 (NewSession ''s'' 1)) = 0"
    "MaxRelationships (IncrementEntity 7 (NewSession ''s'' 1)) = 0"
    "MaxDocuments (IncrementEntity 7 (NewSession ''s'' 1)) = 0"
    "MaxMemoryBytes (IncrementEntity 7 (NewSession ''s'' 1)) = 0"
    by (simp_all add: session_input_defs)
  show ?thesis
    using h zero_quota_unlimited [of "IncrementEntity 7 (NewSession ''s'' 1)" 1000000]
    by simp
qed

text \<open>
  C6 (amended). For a session whose set deadlines are 64-bit values (the sums
  \<open>CreatedAt + TTL\<close> and \<open>LastAccess + IdleTTL\<close> do not wrap around), the session is
  reported expired at \<open>now\<close> exactly when a set deadline is strictly before \<open>now\<close>; and the
  next-expiration time is the earlier of the set deadlines, and 0 when none is set, in
  every case but one: both TTLs are set, the absolute deadline is exactly 0 and the idle
  deadline is later than 0.
\<close>

theorem expiry_refines_spec:
  assumes "0 <s TTL s \<longrightarrow> add_fits (CreatedAt s) (TTL s)"
    and "0 <s IdleTTL s \<longrightarrow> add_fits (LastAccess s) (IdleTTL s)"
  shows "IsExpired s now = expired_spec s (sint now) \<and>
         (sint (GetExpireAt s) = next_expiration_spec s) =
           (\<not> (0 <s TTL s \<and> 0 <s IdleTTL s \<and>
               absolute_deadline s = 0 \<and> 0 < idle_deadline s))"
proof -
  have a: "0 <s TTL s \<Longrightarrow> sint (CreatedAt s + TTL s) = absolute_deadline s"
    using assms(1) by (simp add: sint_add_fits absolute_deadline_def)
  have i: "0 <s IdleTTL s \<Longrightarrow> sint (LastAccess s + IdleTTL s) = idle_deadline s"
    using assms(2) by (simp add: sint_add_fits idle_deadline_def)
  have z: "0 <s TTL s \<Longrightarrow> (CreatedAt s + TTL s = 0) = (absolute_deadline s = 0)"
    using a by (metis signed_eq_0_iff)
  have e: "IsExpired s now = expired_spec s (sint now)"
    using a i by (auto simp: IsExpired_def expired_spec_def word_sless_alt)
  have g: "(sint (GetExpireAt s) = next_expiration_spec s) =
           (\<not> (0 <s TTL s \<and> 0 <s IdleTTL s \<and>
               absolute_deadline s = 0 \<and> 0 < idle_deadline s))"
  proof (cases "0 <s TTL s \<and> 0 <s IdleTTL s")
    case True
    then show ?thesis
      using a i z
      by (auto simp: GetExpireAt_def next_expiration_spec_def Let_def word_sless_alt)
  next
    case False
    then show ?thesis
      using a i
      by (auto simp: GetExpireAt_def next_expiration_spec_def Let_def word_sless_alt)
  qed
  from e g show ?thesis by simp
qed

text \<open>
  Created at 1000 with TTL 100, last touched at 1050 with idle TTL 20: the deadlines are
  1100 and 1070, the next expiration is 1070, and the session is alive at 1070 and
  expired at 1071.
\<close>

theorem expiry_refines_spec_witness:
  "add_fits (CreatedAt session_both_ttl) (TTL session_both_ttl) \<and>
   add_fits (LastAccess session_both_ttl) (IdleTTL session_both_ttl) \<and>
   absolute_deadline session_both_ttl = 1100 \<and> idle_deadline session_both_ttl = 1070 \<and>
   sint (GetExpireAt session_both_ttl) = 1070 \<and>
   \<not> IsExpired session_both_ttl 1070 \<and> IsExpired session_both_ttl 1071"
proof -
  have h: "add_fits (CreatedAt session_both_ttl) (TTL session_both_ttl)"
    "add_fits (LastAccess session_both_ttl) (IdleTTL session_both_ttl)"
    "absolute_deadline session_both_ttl = 1100" "idle_deadline session_both_ttl = 1070"
    by (simp_all add: session_input_defs add_fits_def absolute_deadline_def idle_deadline_def)
  have t: "0 <s TTL session_both_ttl" "0 <s IdleTTL session_both_ttl"
    by (simp_all add: session_input_defs word_sless_alt)
  show ?thesis
    using h t expiry_refines_spec [of session_both_ttl 1070]
      expiry_refines_spec [of session_both_ttl 1071]
    by (simp add: next_expiration_spec_def expired_spec_def)
qed

text \<open>
  The claim as stated fails in two places. The value 0 also means "no expiry": a session
  created at -5 with TTL 5 and idle TTL 10 (last access 0) has the deadlines 0 and 10, and
  its next expiration is reported as 10, not 0. And the sums wrap around: a session
  created at 1000 with TTL 2^63 - 1 is reported expired at 2000, long before its deadline,
  and its next expiration is reported as a time before 0.
\<close>

theorem expiry_counterexample:
  "next_expiration_spec session_epoch = 0 \<and> sint (GetExpireAt session_epoch) = 10 \<and>
   IsExpired session_long_ttl 2000 \<and> \<not> expired_spec session_long_ttl 2000 \<and>
   sint (GetExpireAt session_long_ttl) < 0 \<and> 0 < next_expiration_spec session_long_ttl"
  by (simp add: next_expiration_spec_def expired_spec_def absolute_deadline_def
      idle_deadline_def GetExpireAt_def IsExpired_def session_input_defs word_sless_alt)

text \<open>
  C9 (amended). Every decrement (and \<open>SubMemory\<close>) leaves its counter at 0 or above,
  whatever it is asked to subtract. And a run of operations that starts with counters at
  0 or above, and whose increments add non-negative amounts that the counter can hold,
  ends with every counter at 0 or above.
\<close>

theorem usage_counters_nonneg:
  "(usage_nonneg s \<and> usage_run_ok xs s \<longrightarrow> usage_nonneg (apply_usages xs s)) \<and>
   0 \<le>s EntityCount (DecrementEntity n s) \<and>
   0 \<le>s RelationshipCount (DecrementRelationship n s) \<and>
   0 \<le>s DocumentCount (DecrementDocument n s) \<and>
   0 \<le>s MemoryBytes (SubMemory n s)"
  by (simp add: apply_usages_nonneg DecrementEntity_def DecrementRelationship_def
      DecrementDocument_def SubMemory_def Let_def clamp_nonneg)

theorem usage_counters_nonneg_witness:
  "usage_nonneg (NewSession ''s'' 1) \<and> usage_run_ok usage_trace (NewSession ''s'' 1) \<and>
   usage_nonneg (apply_usages usage_trace (NewSession ''s'' 1)) \<and>
   EntityCount (apply_usages usage_trace (NewSession ''s'' 1)) = 1 \<and>
   MemoryBytes (apply_usages usage_trace (NewSession ''s'' 1)) = 7"
proof -
  have h: "usage_nonneg (NewSession ''s'' 1)" "usage_run_ok usage_trace (NewSession ''s'' 1)"
    by (simp_all add: usage_nonneg_def usage_trace_def NewSession_def add_fits_def
        IncrementEntity_def DecrementEntity_def AddMemory_def SubMemory_def
        DecrementDocument_def word_sle_eq word_sless_alt)
  have v: "EntityCount (apply_usages usage_trace (NewSession ''s'' 1)) = 1"
    "MemoryBytes (apply_usages usage_trace (NewSession ''s'' 1)) = 7"
    by (simp_all add: usage_trace_def NewSession_def IncrementEntity_def DecrementEntity_def
        AddMemory_def SubMemory_def DecrementDocument_def word_sless_alt)
  show ?thesis
    using h v usage_counters_nonneg [of "NewSession ''s'' 1" usage_trace]
    by simp
qed

text \<open>
  The claim as stated fails for an increment by a negative amount: \<open>IncrementEntity\<close>
  does not clamp, and a new session incremented by -1 counts -1 entities.
\<close>

theorem usage_counters_counterexample:
  "usage_nonneg (NewSession ''s'' 1) \<and>
   sint (EntityCount (apply_usages [IncEntity (- 1)] (NewSession ''s'' 1))) = - 1 \<and>
   \<not> usage_nonneg (apply_usages [IncEntity (- 1)] (NewSession ''s'' 1))"
  by (simp add: usage_nonneg_def NewSession_def IncrementEntity_def word_sle_eq)

section \<open>Durability formats\<close>





lemma length_Put [simp]:
  "length (PutUint32 b) = 4" "length (PutUint64 c) = 8"
  by (simp_all add: PutUint32_def PutUint64_def)

lemma length_put_uint [simp]:
  "length (put_uint32 order b) = 4" "length (put_uint64 order c) = 8"
  by (cases order; simp add: put_uint32_def put_uint64_def)+



lemma slice_at:
  "length xs = i \<Longrightarrow> length ys = j - i \<Longrightarrow> i \<le> j \<Longrightarrow> slice (xs @ ys @ zs) i j = ys"
  by (simp add: slice_def)

lemma drop_at: "length xs = i \<Longrightarrow> drop i (xs @ zs) = zs"
  by simp


subsection \<open>Where the fields of a written entry are\<close>




subsection \<open>The magic of a snapshot file\<close>

lemma length_snapshot_magic: "length snapshot_magic = 4"
  by (simp add: snapshot_magic_def)

lemma take_written: "take 4 (write_snapshot hdr body) = snapshot_magic"
  by (simp add: write_snapshot_def length_snapshot_magic)

lemma read_written:
  "NewSnapshotReader (length hdr) (files(path \<mapsto> write_snapshot hdr body)) path =
     Inr \<lparr>header = hdr, stream = body\<rparr>"
proof -
  have "slice (write_snapshot hdr body) 4 (4 + length hdr) = hdr"
    using slice_at [of snapshot_magic 4 hdr "4 + length hdr" body]
    by (simp add: write_snapshot_def length_snapshot_magic)
  moreover have "drop (4 + length hdr) (write_snapshot hdr body) = body"
    using drop_at [of "snapshot_magic @ hdr" "4 + length hdr" body]
    by (simp add: write_snapshot_def length_snapshot_magic)
  moreover have "length (write_snapshot hdr body) = 4 + length hdr + length body"
    by (simp add: write_snapshot_def length_snapshot_magic)
  ultimately show ?thesis
    by (simp add: NewSnapshotReader_def take_written)
qed

lemma read_rejects:
  "files path = Some contents \<Longrightarrow> take 4 contents \<noteq> snapshot_magic \<Longrightarrow>
   NewSnapshotReader header_size files path =
     Inl (if length contents < 4 then SnapshotCorrupt else SnapshotInvalidMagic)"
  by (simp add: NewSnapshotReader_def)

text \<open>
  C4. Every snapshot file the writer lays out begins with the 4 bytes of the magic
  \<open>GRAM\<close>, the number 0x4752414D written big-endian, and the reader opens such a file
  and returns its header and stream. For a file whose first 4 bytes are different the
  reader returns an error in place of a reader, so no snapshot state is loaded: the
  invalid-magic error when the file has 4 bytes, the corrupt-file error when it is
  shorter.
\<close>

theorem snapshot_magic_validated:
  "take 4 (write_snapshot hdr body) = snapshot_magic \<and>
   snapshot_magic = map of_char ''GRAM'' \<and>
   snapshot_magic = put_uint32 BigEndian 0x4752414D \<and>
   (length hdr = header_size \<longrightarrow>
      NewSnapshotReader header_size (files(path \<mapsto> write_snapshot hdr body)) path =
        Inr \<lparr>header = hdr, stream = body\<rparr>) \<and>
   (files' path' = Some contents \<and> take 4 contents \<noteq> snapshot_magic \<longrightarrow>
      NewSnapshotReader header_size files' path' =
        Inl (if length contents < 4 then SnapshotCorrupt else SnapshotInvalidMagic))"
proof -
  have "snapshot_magic = map of_char ''GRAM''"
    by (simp add: snapshot_magic_def)
  moreover have "snapshot_magic = put_uint32 BigEndian 0x4752414D"
    by (simp add: snapshot_magic_def put_uint32_def PutUint32_def)
  ultimately show ?thesis
    using take_written [of hdr body] read_written [of hdr files path body]
      read_rejects [of files' path' contents header_size]
    by auto
qed

text \<open>
  A file written with a header of 28 bytes and a stream of 2 bytes opens; a file that
  starts with \<open>BAD!\<close> is refused with the invalid-magic error.
\<close>

theorem snapshot_magic_validated_witness:
  "length header28 = 28 \<and>
   NewSnapshotReader 28 [''test.snap'' \<mapsto> write_snapshot header28 [0x1F, 0x8B]] ''test.snap'' =
     Inr \<lparr>header = header28, stream = [0x1F, 0x8B]\<rparr> \<and>
   take 4 bad_file = map of_char ''BAD!'' \<and> take 4 bad_file \<noteq> snapshot_magic \<and>
   NewSnapshotReader 28 [''bad.snap'' \<mapsto> bad_file] ''bad.snap'' = Inl SnapshotInvalidMagic"
proof -
  have l: "length header28 = 28"
    by (simp add: header28_def)
  have t: "take 4 bad_file = map of_char ''BAD!''" "take 4 bad_file \<noteq> snapshot_magic"
    "length bad_file = 32"
    by (simp_all add: bad_file_def snapshot_magic_def l)
  show ?thesis
    using l t
      snapshot_magic_validated [of header28 "[0x1F, 0x8B]" 28 Map.empty "''test.snap''"
        "[''bad.snap'' \<mapsto> bad_file]" "''bad.snap''" bad_file]
    by simp
qed

section \<open>Distance kernels\<close>

subsection \<open>The exponent of a positive number\<close>

lemma pow2_pos: "0 < pow2 e"
  by (simp add: pow2_def)

lemma pow2_neg_nat: "pow2 (- int n) = 1 / 2 ^ n"
  by (cases n) (simp_all add: pow2_def nat_add_distrib)

lemma bitlen_pos: "0 < n \<Longrightarrow> 0 < bitlen n"
  using bitlen_eq_zero_iff [of n] bitlen_nonneg [of n] by linarith

lemma ilog2_bounds_ge1:
  assumes "1 \<le> x"
  shows "pow2 (ilog2 x) \<le> x \<and> x < pow2 (ilog2 x + 1)"
proof -
  define n where "n = \<lfloor>x\<rfloor>"
  define k where "k = nat (bitlen n)"
  have n: "0 < n" using assms by (simp add: n_def)
  have k: "bitlen n = int k" "0 < k" using bitlen_pos [OF n] by (simp_all add: k_def)
  have km: "nat (bitlen n - 1) = k - 1" by (simp add: k_def nat_diff_distrib)
  from bitlen_bounds [OF n]
  have b: "2 ^ (k - 1) \<le> n" "n < 2 ^ k"
    unfolding km k_def [symmetric] by simp_all
  have "real_of_int (2 ^ (k - 1)) \<le> real_of_int n"
    using b(1) by (simp only: of_int_le_iff)
  also have "\<dots> \<le> x" by (simp add: n_def)
  finally have lo: "2 ^ (k - 1) \<le> x" by simp
  have "x < real_of_int n + 1" by (simp add: n_def)
  also have "\<dots> = real_of_int (n + 1)" by simp
  also have "\<dots> \<le> real_of_int (2 ^ k)"
    using b(2) by (simp only: of_int_le_iff)
  finally have hi: "x < 2 ^ k" by simp
  have e: "ilog2 x = int (k - 1)" using assms k by (simp add: ilog2_def n_def [symmetric])
  have e1: "int (k - 1) + 1 = int k" using k by simp
  show ?thesis
    unfolding e e1 using lo hi by (simp add: pow2_def)
qed

lemma ilog2_bounds_lt1:
  assumes "0 < x" "x < 1"
  shows "pow2 (ilog2 x) \<le> x \<and> x < pow2 (ilog2 x + 1)"
proof -
  define c where "c = \<lceil>1 / x\<rceil>"
  define k where "k = nat (bitlen (c - 1))"
  have y: "1 < 1 / x" using assms by simp
  then have c: "0 < c - 1" unfolding c_def by linarith
  have k: "bitlen (c - 1) = int k" "0 < k" using bitlen_pos [OF c] by (simp_all add: k_def)
  have km: "nat (bitlen (c - 1) - 1) = k - 1" by (simp add: k_def nat_diff_distrib)
  from bitlen_bounds [OF c]
  have b: "2 ^ (k - 1) \<le> c - 1" "c - 1 < 2 ^ k"
    unfolding km k_def [symmetric] by simp_all
  have "1 / x \<le> real_of_int c" by (simp add: c_def)
  also have "\<dots> \<le> real_of_int (2 ^ k)"
    using b(2) by (simp only: of_int_le_iff)
  finally have "1 / x \<le> 2 ^ k" by simp
  then have lo: "1 / 2 ^ k \<le> x"
    using assms(1) by (simp add: field_simps)
  have "real_of_int (2 ^ (k - 1)) \<le> real_of_int (c - 1)"
    using b(1) by (simp only: of_int_le_iff)
  also have "\<dots> < 1 / x" unfolding c_def by linarith
  finally have "2 ^ (k - 1) < 1 / x" by simp
  then have hi: "x < 1 / 2 ^ (k - 1)"
    using assms(1) by (simp add: field_simps)
  have e: "ilog2 x = - int k" using assms k by (simp add: ilog2_def c_def [symmetric])
  have e1: "- int k + 1 = - int (k - 1)" using k by simp
  show ?thesis
    unfolding e e1 pow2_neg_nat using lo hi by simp
qed

lemma ilog2_bounds: "0 < x \<Longrightarrow> pow2 (ilog2 x) \<le> x \<and> x < pow2 (ilog2 x + 1)"
  using ilog2_bounds_ge1 ilog2_bounds_lt1 by (cases "1 \<le> x") auto

subsection \<open>The widened loops compute what the plain loop computes\<close>

lemmas fp_eval = round_mag_def binary32_def binary64_def ilog2_def compute_bitlen pow2_def
  round_even_def Let_def sval_def fp_zero_def fp_sub_def float32_of_def float64_of_def
  float64_of_int64_def math_Sqrt_def

lemma for_range_step: "i < n \<Longrightarrow> for_range body n i acc = for_range body n (Suc i) (body i acc)"
  by simp

lemma for_range_done: "n \<le> i \<Longrightarrow> for_range body n i acc = acc"
  by simp

lemma for_lanes_unrolled:
  "for_lanes body i 0 acc =
     body (i + 7) (body (i + 6) (body (i + 5) (body (i + 4) (body (i + 3) (body (i + 2)
       (body (i + 1) (body i acc)))))))"
  by (simp add: eval_nat_numeral)

declare for_range.simps [simp del] for_lanes.simps [simp del] for_chunks.simps [simp del]

lemma for_range_chunk:
  assumes "i + 8 \<le> n"
  shows "for_range body n i acc = for_range body n (i + 8) (for_lanes body i 0 acc)"
proof -
  have s: "for_range body n (i + k) c = for_range body n (i + Suc k) (body (i + k) c)"
    if "k < 8" for k c
    using that assms for_range_step [of "i + k" n body c] by simp
  show ?thesis
    using s [of 0] s [of 1] s [of 2] s [of 3] s [of 4] s [of 5] s [of 6] s [of 7]
    by (simp add: for_lanes_unrolled eval_nat_numeral)
qed

lemma chunks_then_range:
  "(case for_chunks body n i acc of (i', acc') \<Rightarrow> for_range body n i' acc') =
   for_range body n i acc"
proof (induction body n i acc rule: for_chunks.induct)
  case (1 body n i acc)
  show ?case
  proof (cases "i + 8 \<le> n")
    case True
    then show ?thesis
      using 1 for_range_chunk [OF True, of body acc]
      by (subst for_chunks.simps) simp
  next
    case False
    then show ?thesis
      by (subst for_chunks.simps) simp
  qed
qed

subsection \<open>The norms of the cosine kernels\<close>

lemma cosine_normA:
  "fst (snd (for_range (cosine_body a b) (length a) i acc)) =
   foldl sq_step (fst (snd acc)) (drop i a)"
proof (induction "cosine_body a b" "length a" i acc rule: for_range.induct)
  case (1 i acc)
  show ?case
  proof (cases "i < length a")
    case True
    then have d: "drop i a = a ! i # drop (Suc i) a"
      by (simp add: Cons_nth_drop_Suc)
    show ?thesis
      using True 1 d
      by (subst for_range.simps) (simp add: cosine_body_def split: prod.splits)
  next
    case False
    then show ?thesis
      by (subst for_range.simps) simp
  qed
qed

lemma cosine_normB:
  "length b = length a \<Longrightarrow>
   snd (snd (for_range (cosine_body a b) (length a) i acc)) =
   foldl sq_step (snd (snd acc)) (drop i b)"
proof (induction "cosine_body a b" "length a" i acc rule: for_range.induct)
  case (1 i acc)
  show ?case
  proof (cases "i < length a")
    case True
    then have d: "drop i b = b ! i # drop (Suc i) b"
      using 1(2) by (simp add: Cons_nth_drop_Suc)
    show ?thesis
      using True 1 d
      by (subst for_range.simps) (simp add: cosine_body_def split: prod.splits)
  next
    case False
    then show ?thesis
      using 1(2) by (subst for_range.simps) simp
  qed
qed

lemma scalar_norms:
  assumes "length a = length b"
    and "for_range (cosine_body a b) (length a) 0 (fp_zero, fp_zero, fp_zero) = (dot, normA, normB)"
  shows "normA = sum_squares a \<and> normB = sum_squares b"
  using cosine_normA [of a b 0 "(fp_zero, fp_zero, fp_zero)"]
    cosine_normB [of b a 0 "(fp_zero, fp_zero, fp_zero)"] assms
  by (simp add: sum_squares_def)

lemma sq_step_zero: "is_zero x \<Longrightarrow> sq_step fp_zero x = fp_zero"
  by (cases x) (simp_all add: fp_zero_def round_mag_def sval_def)

lemma sum_squares_zeros: "\<forall>x\<in>set a. is_zero x \<Longrightarrow> sum_squares a = fp_zero"
  unfolding sum_squares_def
  by (induction a) (simp_all add: sq_step_zero)

lemma fp_eq_zero: "fp_eq fp_zero fp_zero"
  by (simp add: fp_zero_def)

lemma cosine_scalar_zero_norm:
  assumes "fp_eq (sum_squares a) fp_zero \<or> fp_eq (sum_squares b) fp_zero"
  shows "cosineSimilarityScalar a b = fp_zero"
proof (cases "length a = length b")
  case True
  obtain dot normA normB where
    r: "for_range (cosine_body a b) (length a) 0 (fp_zero, fp_zero, fp_zero) = (dot, normA, normB)"
    by (metis prod_cases3)
  from scalar_norms [OF True r] assms show ?thesis
    by (simp add: cosineSimilarityScalar_def r True [symmetric])
next
  case False
  then show ?thesis by (simp add: cosineSimilarityScalar_def)
qed

lemma cosine_avx2_zero_norm:
  assumes "fp_eq (sum_squares a) fp_zero \<or> fp_eq (sum_squares b) fp_zero"
  shows "cosineSimilarityAVX2 a b = fp_zero"
proof (cases "length a = length b")
  case True
  obtain i acc where
    c: "for_chunks (cosine_body a b) (length a) 0 (fp_zero, fp_zero, fp_zero) = (i, acc)"
    by (metis surj_pair)
  obtain dot normA normB where
    r: "for_range (cosine_body a b) (length a) i acc = (dot, normA, normB)"
    by (metis prod_cases3)
  have "for_range (cosine_body a b) (length a) 0 (fp_zero, fp_zero, fp_zero) = (dot, normA, normB)"
    using chunks_then_range [of "cosine_body a b" "length a" 0 "(fp_zero, fp_zero, fp_zero)"] c r
    by simp
  from scalar_norms [OF True this] assms show ?thesis
    by (simp add: cosineSimilarityAVX2_def Let_def c r True [symmetric])
next
  case False
  then show ?thesis by (simp add: cosineSimilarityAVX2_def Let_def)
qed

text \<open>
  C5. The cosine similarity of an all-zeros vector (zeros of either sign) with any vector,
  NaN and infinite elements included, is +0 and not NaN, in the scalar path, in the
  widened path and in the public function; and more generally the result is +0 whenever
  the squared norm of either argument, as the kernel accumulates it, equals 0.
\<close>

theorem cosine_zero_norm:
  "((\<forall>x\<in>set a. is_zero x) \<or> (\<forall>x\<in>set b. is_zero x) \<longrightarrow>
      cosineSimilarityScalar a b = fp_zero \<and> cosineSimilarityAVX2 a b = fp_zero \<and>
      CosineSimilarity h a b = fp_zero) \<and>
   (fp_eq (sum_squares a) fp_zero \<or> fp_eq (sum_squares b) fp_zero \<longrightarrow>
      cosineSimilarityScalar a b = fp_zero \<and> cosineSimilarityAVX2 a b = fp_zero \<and>
      CosineSimilarity h a b = fp_zero)"
proof -
  have g: "cosineSimilarityScalar a b = fp_zero \<and> cosineSimilarityAVX2 a b = fp_zero \<and>
      CosineSimilarity h a b = fp_zero"
    if "fp_eq (sum_squares a) fp_zero \<or> fp_eq (sum_squares b) fp_zero"
    using cosine_scalar_zero_norm [OF that] cosine_avx2_zero_norm [OF that]
    by (simp add: CosineSimilarity_def)
  have z: "fp_eq (sum_squares a) fp_zero \<or> fp_eq (sum_squares b) fp_zero"
    if "(\<forall>x\<in>set a. is_zero x) \<or> (\<forall>x\<in>set b. is_zero x)"
    using that sum_squares_zeros [of a] sum_squares_zeros [of b] fp_eq_zero by auto
  from g z show ?thesis by blast
qed

text \<open>
  Nine negative zeros against a vector that holds a NaN and an infinity: the result is +0
  in both paths.
\<close>

theorem cosine_zero_norm_witness:
  "is_zero (Fin True 0) \<and> length zeros9 = length mixed9 \<and>
   cosineSimilarityScalar zeros9 mixed9 = fp_zero \<and>
   cosineSimilarityAVX2 zeros9 mixed9 = fp_zero \<and>
   CosineSimilarity True zeros9 mixed9 = fp_zero \<and>
   cosineSimilarityAVX2 mixed9 zeros9 = fp_zero"
proof -
  have h: "\<forall>x\<in>set zeros9. is_zero x"
    by (simp add: zeros9_def)
  have l: "length zeros9 = length mixed9"
    by (simp add: zeros9_def mixed9_def)
  show ?thesis
    using h l cosine_zero_norm [of zeros9 mixed9 True] cosine_zero_norm [of mixed9 zeros9 True]
    by simp
qed

text \<open>
  C8. For vectors of different lengths, \<open>CosineSimilarity\<close>, \<open>EuclideanDistance\<close> and
  \<open>DotProduct\<close> each return 0, whether or not the widened path is available; no element
  is read.
\<close>

theorem mismatched_lengths_zero:
  assumes "length a \<noteq> length b"
  shows "CosineSimilarity h a b = fp_zero \<and> EuclideanDistance h a b = fp_zero \<and>
         DotProduct h a b = fp_zero"
  using assms by (simp add: CosineSimilarity_def EuclideanDistance_def DotProduct_def)

theorem mismatched_lengths_zero_witness:
  "length [Fin False 1] \<noteq> length [Fin False 1, Fin False 2] \<and>
   CosineSimilarity True [Fin False 1] [Fin False 1, Fin False 2] = fp_zero \<and>
   EuclideanDistance True [Fin False 1] [Fin False 1, Fin False 2] = fp_zero \<and>
   DotProduct False [Fin False 1] [Fin False 1, Fin False 2] = fp_zero"
proof -
  have h: "length [Fin False 1] \<noteq> length [Fin False 1, Fin False 2]"
    by simp
  show ?thesis
    using h mismatched_lengths_zero [OF h, of True] mismatched_lengths_zero [OF h, of False]
    by simp
qed

subsection \<open>The widened cosine at a unit vector\<close>

lemma unit_acc:
  "for_range (cosine_body unit_vector8 unit_vector8) 8 0 (fp_zero, fp_zero, fp_zero) =
     (Fin False 1, Fin False 1, Fin False 1)"
  by (simp add: for_range.simps unit_vector8_def cosine_body_def fp_eval)

lemma float32Sqrt_one: "float32Sqrt (Fin False 1) = Infty True"
  by (simp add: float32Sqrt_def fastSqrt_def fp_eval)

lemma sqrt32_one: "float32_of (math_Sqrt (float64_of (Fin False 1))) = Fin False 1"
  by (simp add: fp_eval)

text \<open>
  C1 fails on the code. For the unit vector (1, 0, 0, 0, 0, 0, 0, 0) against itself the
  scalar path returns 1 and the widened path returns 0: \<open>fastSqrt\<close> converts the value of
  its argument to an integer where the bit pattern is meant, its result for 1 is a
  negative number of magnitude about 10^56, which is minus infinity as a \<open>float32\<close>, and
  the quotient of the dot product by the product of two such infinities is 0. The two
  results differ by 1, not by less than 10^-5.
\<close>

theorem avx2_cosine_diverges:
  "length unit_vector8 = 8 \<and>
   cosineSimilarityScalar unit_vector8 unit_vector8 = Fin False 1 \<and>
   cosineSimilarityAVX2 unit_vector8 unit_vector8 = fp_zero \<and>
   CosineSimilarity True unit_vector8 unit_vector8 = fp_zero \<and>
   \<not> within_tolerance_spec (cosineSimilarityAVX2 unit_vector8 unit_vector8)
        (cosineSimilarityScalar unit_vector8 unit_vector8)"
proof -
  have l: "length unit_vector8 = 8" by (simp add: unit_vector8_def)
  have s: "cosineSimilarityScalar unit_vector8 unit_vector8 = Fin False 1"
    using unit_acc sqrt32_one
    by (simp add: cosineSimilarityScalar_def l) (simp add: fp_eval)
  obtain i acc where
    c: "for_chunks (cosine_body unit_vector8 unit_vector8) 8 0 (fp_zero, fp_zero, fp_zero) = (i, acc)"
    by (metis surj_pair)
  have r: "for_range (cosine_body unit_vector8 unit_vector8) 8 i acc = (Fin False 1, Fin False 1, Fin False 1)"
    using chunks_then_range [of "cosine_body unit_vector8 unit_vector8" 8 0 "(fp_zero, fp_zero, fp_zero)"]
      c unit_acc by simp
  have v: "cosineSimilarityAVX2 unit_vector8 unit_vector8 = fp_zero"
    using c r float32Sqrt_one
    by (simp add: cosineSimilarityAVX2_def l) (simp add: fp_eval)
  show ?thesis
    using l s v by (simp add: CosineSimilarity_def within_tolerance_spec_def fp_zero_def sval_def)
qed

section \<open>Cleanup scheduler\<close>

lemma Less_ea: "Less h i j \<longleftrightarrow> ea (h ! i) < ea (h ! j)"
  by (simp add: Less_def ea_def word_sless_alt)

lemma ea_Swap:
  assumes "i < length h" "j < length h" "k < length h"
  shows "ea (Swap h i j ! k) = (if k = j then ea (h ! i) else if k = i then ea (h ! j) else ea (h ! k))"
  using assms by (simp add: Swap_def Let_def ea_def nth_list_update)

lemma key_Swap:
  assumes "i < length h" "j < length h" "k < length h"
  shows "entry_key (Swap h i j ! k) =
    (if k = j then entry_key (h ! i) else if k = i then entry_key (h ! j) else entry_key (h ! k))"
  using assms by (simp add: Swap_def Let_def entry_key_def nth_list_update)

lemma map_key_Swap:
  assumes "i < length h" "j < length h"
  shows "map entry_key (Swap h i j) = (map entry_key h)[i := map entry_key h ! j, j := map entry_key h ! i]"
  using assms
  by (intro nth_equalityI) (auto simp: key_Swap nth_list_update)

lemma mset_key_Swap:
  assumes "i < length h" "j < length h"
  shows "mset (map entry_key (Swap h i j)) = mset (map entry_key h)"
proof -
  have "mset ((map entry_key h)[i := map entry_key h ! j, j := map entry_key h ! i]) =
        mset (map entry_key h)"
    using assms by (intro mset_swap) simp_all
  then show ?thesis
    by (simp only: map_key_Swap [OF assms])
qed

lemma down_unfold:
  "down h i n =
     (if n \<le> 2 * i + 1 then h
      else if \<not> Less h (smaller_child h i n) i then h
      else down (Swap h i (smaller_child h i n)) (smaller_child h i n) n)"
  by (subst down.simps) (simp add: Let_def smaller_child_def)

lemma down_induct [consumes 0, case_names step]:
  assumes "\<And>h i n.
     (\<not> n \<le> 2 * i + 1 \<Longrightarrow> Less h (smaller_child h i n) i \<Longrightarrow>
        P (Swap h i (smaller_child h i n)) (smaller_child h i n) n) \<Longrightarrow> P h i n"
  shows "P h i n"
proof (induction h i n rule: down.induct)
  case (1 h i n)
  show ?case
  proof (rule assms)
    assume a: "\<not> n \<le> 2 * i + 1" "Less h (smaller_child h i n) i"
    have e: "smaller_child h i n =
      (if 2 * i + 1 + 1 < n \<and> Less h (2 * i + 1 + 1) (2 * i + 1) then 2 * i + 1 + 1
       else 2 * i + 1)"
      by (simp add: smaller_child_def)
    show "P (Swap h i (smaller_child h i n)) (smaller_child h i n) n"
      using "1.IH" [OF refl a(1) e] a(2) by blast
  qed
qed

lemma smaller_child_bounds:
  assumes "\<not> n \<le> 2 * i + 1"
  shows "i < smaller_child h i n" "smaller_child h i n < n"
    "(smaller_child h i n - 1) div 2 = i" "0 < smaller_child h i n"
  using assms by (auto simp: smaller_child_def)

lemma smaller_child_least:
  assumes "0 < k" "k < n" "(k - 1) div 2 = i"
  shows "ea (h ! smaller_child h i n) \<le> ea (h ! k)"
proof -
  have "k = 2 * i + 1 \<or> k = 2 * i + 2" using assms by auto
  then show ?thesis
    using assms by (auto simp: smaller_child_def Less_ea)
qed

lemma down_keys:
  "n \<le> length h \<Longrightarrow> mset (map entry_key (down h i n)) = mset (map entry_key h)"
proof (induction h i n rule: down_induct)
  case (step h i n)
  show ?case
  proof (cases "\<not> n \<le> 2 * i + 1 \<and> Less h (smaller_child h i n) i")
    case True
    then have b: "i < length h" "smaller_child h i n < length h"
      using smaller_child_bounds [of n i h] step.prems by auto
    have "mset (map entry_key (down (Swap h i (smaller_child h i n)) (smaller_child h i n) n)) =
          mset (map entry_key (Swap h i (smaller_child h i n)))"
      using step.IH True step.prems by simp
    also have "\<dots> = mset (map entry_key h)"
      using b by (rule mset_key_Swap)
    finally show ?thesis
      using True by (subst down_unfold) simp
  next
    case False
    then show ?thesis
      by (subst down_unfold) auto
  qed
qed

lemma nth_Swap_other:
  "k \<noteq> i \<Longrightarrow> k \<noteq> j \<Longrightarrow> Swap h i j ! k = h ! k"
  by (simp add: Swap_def Let_def)

lemma down_above:
  "n \<le> k \<Longrightarrow> down h i n ! k = h ! k"
proof (induction h i n rule: down_induct)
  case (step h i n)
  show ?case
  proof (cases "\<not> n \<le> 2 * i + 1 \<and> Less h (smaller_child h i n) i")
    case True
    then have b: "i < smaller_child h i n" "smaller_child h i n < n"
      using smaller_child_bounds [of n i h] by auto
    have "down (Swap h i (smaller_child h i n)) (smaller_child h i n) n ! k =
          Swap h i (smaller_child h i n) ! k"
      using step.IH True step.prems by simp
    also have "\<dots> = h ! k"
      using b step.prems by (intro nth_Swap_other) auto
    finally show ?thesis
      using True by (subst down_unfold) simp
  next
    case False
    then show ?thesis
      by (subst down_unfold) auto
  qed
qed

lemma heap_except_Swap:
  assumes n: "n \<le> length h" and c: "\<not> n \<le> 2 * i + 1"
    and l: "Less h (smaller_child h i n) i"
    and e: "heap_except h n i"
  shows "heap_except (Swap h i (smaller_child h i n)) n (smaller_child h i n)"
proof -
  define j where "j = smaller_child h i n"
  have b: "i < j" "j < n" "(j - 1) div 2 = i" "0 < j"
    using smaller_child_bounds [OF c, of h] by (simp_all add: j_def)
  have il: "i < length h" and jl: "j < length h" using b n by auto
  have lt: "ea (h ! j) < ea (h ! i)" using l by (simp add: Less_ea j_def)
  have least: "ea (h ! j) \<le> ea (h ! k)" if "0 < k" "k < n" "(k - 1) div 2 = i" for k
    using smaller_child_least [OF that, of h] by (simp add: j_def)
  have sw: "ea (Swap h i j ! k) = (if k = j then ea (h ! i) else if k = i then ea (h ! j) else ea (h ! k))"
    if "k < length h" for k
    using ea_Swap [OF il jl that] .
  have e1: "ea (h ! ((k - 1) div 2)) \<le> ea (h ! k)" if "0 < k" "k < n" "(k - 1) div 2 \<noteq> i" for k
    using e that by (simp add: heap_except_def)
  have e2: "ea (h ! ((i - 1) div 2)) \<le> ea (h ! k)" if "0 < i" "0 < k" "k < n" "(k - 1) div 2 = i" for k
    using e that by (simp add: heap_except_def)
  have first: "ea (Swap h i j ! ((k - 1) div 2)) \<le> ea (Swap h i j ! k)"
    if k: "0 < k" "k < n" "(k - 1) div 2 \<noteq> j" for k
  proof -
    have kl: "k < length h" "(k - 1) div 2 < length h" using k n by auto
    consider "k = j" | "k \<noteq> j" "(k - 1) div 2 = i" | "k = i" | "k \<noteq> j" "k \<noteq> i" "(k - 1) div 2 \<noteq> i"
      by blast
    then show ?thesis
    proof cases
      case 1
      then show ?thesis using b lt il jl by (simp add: sw)
    next
      case 2
      then have "k \<noteq> i" using k by auto
      then show ?thesis using 2 least [OF k(1,2)] b kl il by (simp add: sw)
    next
      case 3
      then have p: "(k - 1) div 2 \<noteq> i" "(k - 1) div 2 \<noteq> j" "k \<noteq> j" using k b by auto
      have "ea (h ! ((i - 1) div 2)) \<le> ea (h ! j)"
        using e2 [of j] 3 k b by simp
      then show ?thesis using 3 p kl by (simp add: sw)
    next
      case 4
      then show ?thesis using e1 [OF k(1,2)] k kl by (simp add: sw)
    qed
  qed
  have second: "ea (Swap h i j ! ((j - 1) div 2)) \<le> ea (Swap h i j ! k)"
    if k: "0 < k" "k < n" "(k - 1) div 2 = j" for k
  proof -
    have kl: "k < length h" using k n by auto
    have kj: "k \<noteq> j" "k \<noteq> i" using k b by auto
    have "ea (h ! j) \<le> ea (h ! k)" using e1 [OF k(1,2)] k b by simp
    then show ?thesis using kj b kl il by (simp add: sw)
  qed
  show ?thesis
    unfolding j_def [symmetric] heap_except_def using first second by blast
qed

lemma down_heap:
  "n \<le> length h \<Longrightarrow> heap_except h n i \<Longrightarrow> heap_upto (down h i n) n"
proof (induction h i n rule: down_induct)
  case (step h i n)
  show ?case
  proof (cases "n \<le> 2 * i + 1")
    case True
    have "heap_upto h n"
      unfolding heap_upto_def
    proof (intro allI impI)
      fix j assume j: "0 < j \<and> j < n"
      then have "(j - 1) div 2 \<noteq> i" using True by auto
      then show "ea (h ! ((j - 1) div 2)) \<le> ea (h ! j)"
        using step.prems(2) j by (simp add: heap_except_def)
    qed
    then show ?thesis using True by (subst down_unfold) simp
  next
    case False
    show ?thesis
    proof (cases "Less h (smaller_child h i n) i")
      case True
      have "heap_upto (down (Swap h i (smaller_child h i n)) (smaller_child h i n) n) n"
        using step.IH [OF False True] heap_except_Swap [OF step.prems(1) False True step.prems(2)]
          step.prems(1)
        by simp
      then show ?thesis using False True by (subst down_unfold) simp
    next
      case nl: False
      have "heap_upto h n"
        unfolding heap_upto_def
      proof (intro allI impI)
        fix j assume j: "0 < j \<and> j < n"
        show "ea (h ! ((j - 1) div 2)) \<le> ea (h ! j)"
        proof (cases "(j - 1) div 2 = i")
          case True
          have "ea (h ! smaller_child h i n) \<le> ea (h ! j)"
            using smaller_child_least [of j n i h] j True by simp
          moreover have "ea (h ! i) \<le> ea (h ! smaller_child h i n)"
            using nl by (simp add: Less_ea)
          ultimately show ?thesis using True by simp
        next
          case False
          then show ?thesis using step.prems(2) j by (simp add: heap_except_def)
        qed
      qed
      then show ?thesis using False nl by (subst down_unfold) simp
    qed
  qed
qed

lemma root_least:
  "heap_upto h n \<Longrightarrow> k < n \<Longrightarrow> ea (h ! 0) \<le> ea (h ! k)"
proof (induction k rule: less_induct)
  case (less k)
  show ?case
  proof (cases "k = 0")
    case True
    then show ?thesis by simp
  next
    case False
    then have p: "(k - 1) div 2 < k" by auto
    have "ea (h ! 0) \<le> ea (h ! ((k - 1) div 2))"
      using less.IH [OF p less.prems(1)] p less.prems(2) by simp
    moreover have "ea (h ! ((k - 1) div 2)) \<le> ea (h ! k)"
      using less.prems False by (simp add: heap_upto_def)
    ultimately show ?thesis by simp
  qed
qed

lemma heap_Pop_spec:
  assumes ne: "h \<noteq> []"
  shows "\<exists>e h'. heap_Pop h = Some (e, h') \<and> entry_key e = entry_key (h ! 0) \<and>
           (heap_ordered h \<longrightarrow> heap_ordered h') \<and> length h' = length h - 1 \<and>
           mset (map entry_key h) = add_mset (entry_key (h ! 0)) (mset (map entry_key h'))"
proof -
  define n where "n = length h - 1"
  define h1 where "h1 = Swap h 0 n"
  define h2 where "h2 = down h1 0 n"
  have nl: "n < length h" "0 < length h" using ne by (simp_all add: n_def)
  have l2: "length h2 = length h" "length h1 = length h" by (simp_all add: h2_def h1_def)
  have h2ne: "h2 \<noteq> []" using l2 ne by auto
  have last2: "last h2 = h1 ! n"
    using h2ne l2 by (simp add: last_conv_nth n_def h2_def down_above)
  have klast: "entry_key (last h2) = entry_key (h ! 0)"
    unfolding last2 h1_def using key_Swap [of 0 h n n] nl by simp
  have hob: "heap_ordered (butlast h2)" if ho: "heap_ordered h"
  proof -
    have ex: "heap_except h1 n 0"
      unfolding heap_except_def
    proof (intro conjI allI impI)
      fix j assume j: "0 < j \<and> j < n \<and> (j - 1) div 2 \<noteq> 0"
      then have a: "h1 ! j = h ! j" "h1 ! ((j - 1) div 2) = h ! ((j - 1) div 2)"
        unfolding h1_def by (auto intro!: nth_Swap_other)
      show "ea (h1 ! ((j - 1) div 2)) \<le> ea (h1 ! j)"
        unfolding a using ho j nl by (simp add: heap_ordered_def heap_upto_def)
    qed simp
    have "heap_upto h2 n"
      unfolding h2_def using ex nl l2 by (intro down_heap) simp_all
    then show ?thesis
      unfolding heap_ordered_def heap_upto_def
    proof (intro allI impI)
      fix j assume u: "\<forall>j. 0 < j \<and> j < n \<longrightarrow> ea (h2 ! ((j - 1) div 2)) \<le> ea (h2 ! j)"
        and j: "0 < j \<and> j < length (butlast h2)"
      have jn: "j < n" "(j - 1) div 2 < n" using j l2 by (auto simp: n_def)
      have "butlast h2 ! j = h2 ! j" "butlast h2 ! ((j - 1) div 2) = h2 ! ((j - 1) div 2)"
        using jn l2 by (simp_all add: nth_butlast n_def)
      then show "ea (butlast h2 ! ((j - 1) div 2)) \<le> ea (butlast h2 ! j)"
        using u j jn by simp
    qed
  qed
  have "mset (map entry_key h2) = mset (map entry_key h1)"
    unfolding h2_def using nl l2 by (intro down_keys) simp
  also have "\<dots> = mset (map entry_key h)"
    unfolding h1_def using nl by (intro mset_key_Swap) simp_all
  finally have m: "mset (map entry_key h) = mset (map entry_key h2)" by simp
  have "h2 = butlast h2 @ [last h2]" using h2ne by simp
  then have "mset (map entry_key h2) =
      add_mset (entry_key (last h2)) (mset (map entry_key (butlast h2)))"
    by (metis (no_types, lifting) map_append list.simps(8,9) mset.simps(1,2) union_mset_add_mset_right
        add.right_neutral mset_append)
  then have mm: "mset (map entry_key h) =
      add_mset (entry_key (h ! 0)) (mset (map entry_key (butlast h2)))"
    using m klast by simp
  have p: "heap_Pop h = Some ((last h2)\<lparr>index := - 1\<rparr>, butlast h2)"
    using ne by (simp add: heap_Pop_def expiryHeap_Pop_def Let_def h2_def h1_def n_def)
  have k: "entry_key ((last h2)\<lparr>index := - 1\<rparr>) = entry_key (h ! 0)"
    using klast by (simp add: entry_key_def)
  show ?thesis
    using p k hob mm l2 by simp
qed

lemma pop_due_loop:
  "\<exists>s' pk. pop_due now s toRemove = Some (s', toRemove @ map fst pk) \<and>
     (heap_ordered (heap s) \<longrightarrow> heap_ordered (heap s')) \<and>
     (heap s' \<noteq> [] \<longrightarrow> \<not> expireAt (heap s' ! 0) \<le>s now) \<and>
     mset (map entry_key (heap s)) = mset (map entry_key (heap s')) + mset pk \<and>
     (\<forall>k\<in>set pk. snd k \<le>s now) \<and>
     heapIndex s' = heapIndex s - set (map fst pk)"
proof (induction now s toRemove rule: pop_due.induct)
  case (1 now s toRemove)
  show ?case
  proof (cases "0 < length (heap s) \<and> expireAt (heap s ! 0) \<le>s now")
    case True
    then have ne: "heap s \<noteq> []" by auto
    from heap_Pop_spec [OF ne] obtain e h' where
      p: "heap_Pop (heap s) = Some (e, h')" and
      k: "entry_key e = entry_key (heap s ! 0)" and
      ho: "heap_ordered (heap s) \<longrightarrow> heap_ordered h'" and
      m: "mset (map entry_key (heap s)) = add_mset (entry_key (heap s ! 0)) (mset (map entry_key h'))"
      by blast
    define s1 where "s1 = s\<lparr>heap := h', heapIndex := heapIndex s - {sessionID e}\<rparr>"
    have h1: "heap s1 = h'" by (simp add: s1_def)
    from "1.IH" [OF True p refl, folded s1_def] obtain s' pk where
      r: "pop_due now s1 (toRemove @ [sessionID e]) = Some (s', (toRemove @ [sessionID e]) @ map fst pk)"
      and ho': "heap_ordered (heap s1) \<longrightarrow> heap_ordered (heap s')"
      and top: "heap s' \<noteq> [] \<longrightarrow> \<not> expireAt (heap s' ! 0) \<le>s now"
      and m': "mset (map entry_key (heap s1)) = mset (map entry_key (heap s')) + mset pk"
      and due: "\<forall>k\<in>set pk. snd k \<le>s now"
      and idx: "heapIndex s' = heapIndex s1 - set (map fst pk)"
      by blast
    let ?pk = "entry_key (heap s ! 0) # pk"
    have f: "fst (entry_key (heap s ! 0)) = sessionID e"
      using k by (simp add: entry_key_def)
    have "pop_due now s toRemove = Some (s', toRemove @ map fst ?pk)"
      using True p r f by (subst pop_due.simps) (simp add: s1_def)
    moreover have "mset (map entry_key (heap s)) = mset (map entry_key (heap s')) + mset ?pk"
      using m m' by (simp add: s1_def)
    moreover have "\<forall>k\<in>set ?pk. snd k \<le>s now"
      using due True by (simp add: entry_key_def)
    moreover have "heapIndex s' = heapIndex s - set (map fst ?pk)"
      using idx f by (auto simp: s1_def)
    moreover have "heap_ordered (heap s) \<longrightarrow> heap_ordered (heap s')"
      using ho ho' h1 by simp
    ultimately show ?thesis
      using top by blast
  next
    case False
    have "pop_due now s toRemove = Some (s, toRemove @ map fst [])"
      using False by (subst pop_due.simps) auto
    moreover have "heap s \<noteq> [] \<longrightarrow> \<not> expireAt (heap s ! 0) \<le>s now"
      using False by auto
    ultimately show ?thesis
      by (intro exI [of _ s] exI [of _ "[]"]) simp
  qed
qed

lemma heap_all_later:
  assumes "heap_ordered h" and "h \<noteq> [] \<longrightarrow> \<not> expireAt (h ! 0) \<le>s now" and "e \<in> set h"
  shows "\<not> expireAt e \<le>s now"
proof -
  obtain k where k: "k < length h" "h ! k = e"
    using assms(3) by (auto simp: in_set_conv_nth)
  have "ea (h ! 0) \<le> ea (h ! k)"
    using root_least [of h "length h" k] assms(1) k by (simp add: heap_ordered_def)
  moreover have "sint now < ea (h ! 0)"
    using assms(2) k by (auto simp: word_sle_eq ea_def)
  ultimately show ?thesis
    using k by (simp add: word_sle_eq ea_def)
qed

lemma rechecked_Cons:
  "rechecked_expired clock k (x # ids) m sid =
     ((x = sid \<and> (\<exists>sess. m sid = Some sess \<and> IsExpired sess (clock k))) \<or>
      rechecked_expired clock (k + 1) ids m sid)"
  by (simp add: rechecked_expired_def Ex_less_Suc2)

lemma rechecked_absent:
  "m sid = None \<Longrightarrow> \<not> rechecked_expired clock k ids m sid"
  by (simp add: rechecked_expired_def)

lemma rechecked_other:
  "sid \<noteq> x \<Longrightarrow>
   rechecked_expired clock k ids (m(x := None)) sid = rechecked_expired clock k ids m sid"
  by (simp add: rechecked_expired_def)

lemma evict_char:
  "evict clock k ids m sid = (if rechecked_expired clock k ids m sid then None else m sid)"
proof (induction ids arbitrary: k m)
  case Nil
  then show ?case by (simp add: rechecked_expired_def)
next
  case (Cons x ids)
  have ih: "evict clock (k + 1) ids m' sid =
      (if rechecked_expired clock (k + 1) ids m' sid then None else m' sid)" for m'
    by (rule Cons.IH)
  show ?case
  proof (cases "m x")
    case None
    then show ?thesis
      using ih [of m] by (auto simp: rechecked_Cons)
  next
    case (Some sx)
    show ?thesis
    proof (cases "IsExpired sx (clock k)")
      case True
      define m' where "m' = m(x := None)"
      have e: "evict clock k (x # ids) m sid = evict clock (k + 1) ids m' sid"
        using Some True by (simp add: m'_def)
      show ?thesis
      proof (cases "sid = x")
        case sx: True
        have "m' sid = None" using sx by (simp add: m'_def)
        then have "evict clock (k + 1) ids m' sid = None"
          using ih [of m'] by (simp add: rechecked_absent)
        then show ?thesis
          unfolding e using Some True sx by (simp add: rechecked_Cons)
      next
        case False
        have "m' sid = m sid" using False by (simp add: m'_def)
        moreover have "rechecked_expired clock (k + 1) ids m' sid =
            rechecked_expired clock (k + 1) ids m sid"
          unfolding m'_def using False by (rule rechecked_other)
        ultimately show ?thesis
          unfolding e using ih [of m'] False by (simp add: rechecked_Cons)
      qed
    next
      case False
      then show ?thesis
        using ih [of m] Some by (auto simp: rechecked_Cons)
    qed
  qed
qed

lemma due_keys_popped:
  assumes ho: "heap_ordered h'" and top: "h' \<noteq> [] \<longrightarrow> \<not> expireAt (h' ! 0) \<le>s now"
    and m: "mset (map entry_key h) = mset (map entry_key h') + mset pk"
    and due: "\<forall>k\<in>set pk. snd k \<le>s now"
  shows "mset (map entry_key h') =
           filter_mset (\<lambda>k. \<not> snd k \<le>s now) (mset (map entry_key h)) \<and>
         fst ` set pk = due_ids now h"
proof -
  have later: "\<not> snd k \<le>s now" if kin: "k \<in># mset (map entry_key h')" for k
  proof -
    obtain e where "e \<in> set h'" "k = entry_key e" using kin by auto
    then show ?thesis
      using heap_all_later [OF ho top] by (simp add: entry_key_def)
  qed
  define K' where "K' = mset (map entry_key h')"
  have f1: "filter_mset (\<lambda>k. \<not> snd k \<le>s now) K' = K'"
    using later unfolding K'_def [symmetric] by (simp add: filter_mset_eq_conv)
  have f2: "filter_mset (\<lambda>k. \<not> snd k \<le>s now) (mset pk) = {#}"
    using due by simp
  have "filter_mset (\<lambda>k. \<not> snd k \<le>s now) (K' + mset pk) = K'"
    by (simp only: filter_union_mset f1 f2 add.right_neutral)
  then have keep: "mset (map entry_key h') =
       filter_mset (\<lambda>k. \<not> snd k \<le>s now) (mset (map entry_key h))"
    unfolding m K'_def by simp
  have "set pk = {k \<in> set (map entry_key h). snd k \<le>s now}"
  proof (intro set_eqI iffI)
    fix k assume "k \<in> set pk"
    then show "k \<in> {k \<in> set (map entry_key h). snd k \<le>s now}"
      using due m by (metis (mono_tags, lifting) mem_Collect_eq set_mset_mset union_iff)
  next
    fix k assume a: "k \<in> {k \<in> set (map entry_key h). snd k \<le>s now}"
    then have "k \<in># mset (map entry_key h') + mset pk"
      using m by (metis (mono_tags, lifting) mem_Collect_eq set_mset_mset)
    then have "k \<in># mset (map entry_key h') \<or> k \<in> set pk"
      by (simp only: set_mset_union Un_iff set_mset_mset)
    moreover have "\<not> k \<in># mset (map entry_key h')"
      using later [of k] a by blast
    ultimately show "k \<in> set pk"
      by blast
  qed
  then have "fst ` set pk = due_ids now h"
    by (auto simp: due_ids_def entry_key_def image_iff) force+
  then show ?thesis
    using keep by simp
qed

lemma popped_keys_due:
  assumes "mset (map entry_key h) = mset (map entry_key h') + mset pk"
    and "\<forall>k\<in>set pk. snd k \<le>s now"
  shows "fst ` set pk \<subseteq> due_ids now h"
proof
  fix sid assume "sid \<in> fst ` set pk"
  then obtain k where k: "k \<in> set pk" "fst k = sid" by auto
  then have "k \<in># mset (map entry_key h)"
    using assms(1) by (metis set_mset_mset union_iff)
  then obtain e where e: "e \<in> set h" "k = entry_key e" by auto
  have "sessionID e = sid" "expireAt e \<le>s now"
    using k e assms(2) by (auto simp: entry_key_def)
  then show "sid \<in> due_ids now h"
    using e(1) unfolding due_ids_def by blast
qed

text \<open>
  C7. When the scheduler fires, the pass returns; the sessions it pops, in the order
  \<open>toRemove\<close>, are sessions of due entries (expireAt at most \<open>now\<close>), and on a heap in heap
  order it pops every due entry and leaves the others, in heap order again; the popped
  sessions leave its index. The engine's map after the pass is the map before it with
  exactly these sessions deleted: those popped at some place \<open>p\<close> of \<open>toRemove\<close>, still in
  the map, whose expiry predicate holds at \<open>clock p\<close>, the reading of the re-check of that
  very place. So a session is deleted only if its own re-check finds it expired at
  eviction time, and a popped session that its re-check finds not expired, such as one
  whose last access was refreshed, keeps its entry unchanged.
\<close>

theorem cleanup_pops_due_and_rechecks:
  "\<exists>s' toRemove sessions'.
     pop_due now s [] = Some (s', toRemove) \<and>
     cleanup now clock s sessions = Some (s', sessions') \<and>
     set toRemove \<subseteq> due_ids now (heap s) \<and>
     heapIndex s' = heapIndex s - set toRemove \<and>
     (heap_ordered (heap s) \<longrightarrow>
        set toRemove = due_ids now (heap s) \<and> heap_ordered (heap s') \<and>
        mset (map entry_key (heap s')) =
          filter_mset (\<lambda>k. \<not> snd k \<le>s now) (mset (map entry_key (heap s)))) \<and>
     (\<forall>sid. sessions' sid =
        (if \<exists>p<length toRemove. toRemove ! p = sid \<and>
              (\<exists>sess. sessions sid = Some sess \<and> IsExpired sess (clock p))
         then None else sessions sid))"
proof -
  from pop_due_loop [of now s "[]"] obtain s' pk where
    r: "pop_due now s [] = Some (s', map fst pk)"
    and ho: "heap_ordered (heap s) \<longrightarrow> heap_ordered (heap s')"
    and top: "heap s' \<noteq> [] \<longrightarrow> \<not> expireAt (heap s' ! 0) \<le>s now"
    and m: "mset (map entry_key (heap s)) = mset (map entry_key (heap s')) + mset pk"
    and due: "\<forall>k\<in>set pk. snd k \<le>s now"
    and idx: "heapIndex s' = heapIndex s - set (map fst pk)"
    by auto
  define tr where "tr = map fst pk"
  define m' where "m' = evict clock 0 tr sessions"
  have r': "pop_due now s [] = Some (s', tr)"
    using r by (simp add: tr_def)
  have c: "cleanup now clock s sessions = Some (s', m')"
    using r by (cases tr) (simp_all add: cleanup_def m'_def tr_def)
  have sub: "set tr \<subseteq> due_ids now (heap s)"
    using popped_keys_due [OF m due] by (simp add: tr_def)
  have ord: "set tr = due_ids now (heap s) \<and> heap_ordered (heap s') \<and>
        mset (map entry_key (heap s')) =
          filter_mset (\<lambda>k. \<not> snd k \<le>s now) (mset (map entry_key (heap s)))"
    if o: "heap_ordered (heap s)"
  proof -
    have o': "heap_ordered (heap s')" using ho o by simp
    from due_keys_popped [OF o' top m due] o' show ?thesis
      by (simp add: tr_def)
  qed
  have a: "m' sid =
        (if \<exists>p<length tr. tr ! p = sid \<and>
              (\<exists>sess. sessions sid = Some sess \<and> IsExpired sess (clock p))
         then None else sessions sid)" for sid
    using evict_char [of clock 0 tr sessions sid]
    by (simp add: m'_def rechecked_expired_def)
  have i: "heapIndex s' = heapIndex s - set tr"
    using idx by (simp add: tr_def)
  show ?thesis
    using r' c sub i ord a
    by (intro exI [of _ s'] exI [of _ tr] exI [of _ m']) blast
qed

lemma heap_ordered_sched3: "heap_ordered (heap sched3)"
  by (auto simp: heap_ordered_def heap_upto_def sched3_def ea_def less_Suc_eq
      eval_nat_numeral)

lemma pop_due_sched3:
  "pop_due 8 sched3 [] =
     Some (\<lparr>heap = [\<lparr>sessionID = ''b'', expireAt = 10, index = 0\<rparr>], heapIndex = {''b''}\<rparr>,
           [''a'', ''c''])"
  by (simp add: pop_due.simps heap_Pop_def expiryHeap_Pop_def down.simps
      Swap_def Less_def Let_def sched3_def word_sle_eq insert_Diff_if)

lemma cleanup_sched3:
  "cleanup 8 clock3 sched3 engine3 =
     Some (\<lparr>heap = [\<lparr>sessionID = ''b'', expireAt = 10, index = 0\<rparr>], heapIndex = {''b''}\<rparr>,
           engine3(''a'' := None))"
  by (simp add: cleanup_def pop_due_sched3 clock3_def engine3_def IsExpired_def
      NewSession_def SetTTL_def SetIdleTTL_def Touch_def word_sless_alt)

text \<open>
  At 8 the entries of a (due at 5) and c (due at 7) are popped, in this order, and b (due
  at 10) stays. The re-check of a reads 9: a is expired and is deleted. The re-check of
  c reads 10: c was touched at 8, is not expired at 10 and stays in the engine's map,
  although it would be expired at 16, a reading that no re-check of this pass takes.
\<close>

theorem cleanup_pops_due_and_rechecks_witness:
  "heap_ordered (heap sched3) \<and>
   due_ids 8 (heap sched3) = {''a'', ''c''} \<and>
   pop_due 8 sched3 [] =
     Some (\<lparr>heap = [\<lparr>sessionID = ''b'', expireAt = 10, index = 0\<rparr>], heapIndex = {''b''}\<rparr>,
           [''a'', ''c'']) \<and>
   cleanup 8 clock3 sched3 engine3 =
     Some (\<lparr>heap = [\<lparr>sessionID = ''b'', expireAt = 10, index = 0\<rparr>], heapIndex = {''b''}\<rparr>,
           engine3(''a'' := None)) \<and>
   (engine3(''a'' := None)) ''a'' = None \<and>
   (engine3(''a'' := None)) ''c'' = engine3 ''c'' \<and>
   IsExpired (the (engine3 ''a'')) (clock3 0) \<and>
   \<not> IsExpired (the (engine3 ''c'')) (clock3 1) \<and>
   IsExpired (the (engine3 ''c'')) (clock3 7)"
proof -
  have d: "due_ids 8 (heap sched3) = {''a'', ''c''}"
    by (auto simp: due_ids_def sched3_def word_sle_eq)
  have e: "IsExpired (the (engine3 ''a'')) (clock3 0)"
    "\<not> IsExpired (the (engine3 ''c'')) (clock3 1)"
    "IsExpired (the (engine3 ''c'')) (clock3 7)"
    by (simp_all add: clock3_def engine3_def IsExpired_def NewSession_def SetTTL_def
        SetIdleTTL_def Touch_def word_sless_alt)
  show ?thesis
    using heap_ordered_sched3 d e pop_due_sched3 cleanup_sched3
      cleanup_pops_due_and_rechecks [of 8 sched3 clock3 engine3]
    by simp
qed

end
